theory Spec2Isabelle
  imports
    Complex_Main
    "HOL-Library.Word"
    "HOL-Library.Finite_Map"
    "HOL-Library.List_Lexorder"
    "HOL-Library.Char_ord"
begin

section \<open>Strings\<close>

text \<open>
  A Go string is a sequence of bytes; it is modelled as a \<^typ>\<open>string\<close>, one
  \<^typ>\<open>char\<close> per byte.  \<open>sort.Strings\<close> orders strings bytewise, which is the
  lexicographic order on \<^typ>\<open>string\<close>.
\<close>

definition newline :: char where
  "newline = CHR 0x0A"

text \<open>\<open>strings.Replace(s, old, new, -1)\<close> for a one-byte \<open>old\<close>.\<close>

fun Replace :: "string \<Rightarrow> char \<Rightarrow> string \<Rightarrow> string" where
  "Replace [] old new = []"
| "Replace (c # cs) old new =
     (if c = old then new @ Replace cs old new else c # Replace cs old new)"

text \<open>\<open>strings.Split(s, sep)\<close> for a one-byte \<open>sep\<close>: never the empty list.\<close>

fun Split :: "string \<Rightarrow> char \<Rightarrow> string list" where
  "Split [] sep = [[]]"
| "Split (c # cs) sep =
     (if c = sep then [] # Split cs sep
      else (case Split cs sep of [] \<Rightarrow> [[c]] | w # ws \<Rightarrow> (c # w) # ws))"

text \<open>\<open>strings.Join(xs, sep)\<close>.\<close>

fun Join :: "string list \<Rightarrow> string \<Rightarrow> string" where
  "Join [] sep = []"
| "Join [x] sep = x"
| "Join (x # y # ys) sep = x @ sep @ Join (y # ys) sep"

text \<open>\<open>strings.Contains(s, "*")\<close>.\<close>

definition Contains :: "string \<Rightarrow> char \<Rightarrow> bool" where
  "Contains s c = (c \<in> set s)"

text \<open>
  \<open>strings.TrimSpace\<close> removes, at both ends, the characters for which
  \<open>unicode.IsSpace\<close> holds: six ASCII characters, and U+0085, U+00A0, U+1680,
  U+2000 to U+200A, U+2028, U+2029, U+202F, U+205F and U+3000 in their UTF-8
  encodings of two and three bytes.
\<close>

definition ascii_space :: "char \<Rightarrow> bool" where
  "ascii_space c = (c \<in> set [CHR 0x09, CHR 0x0A, CHR 0x0B, CHR 0x0C, CHR 0x0D, CHR 0x20])"

definition space2 :: "char \<Rightarrow> char \<Rightarrow> bool" where
  "space2 a b = (a = CHR 0xC2 \<and> (b = CHR 0x85 \<or> b = CHR 0xA0))"

definition space3 :: "char \<Rightarrow> char \<Rightarrow> char \<Rightarrow> bool" where
  "space3 a b c =
     ((a = CHR 0xE1 \<and> b = CHR 0x9A \<and> c = CHR 0x80) \<or>
      (a = CHR 0xE2 \<and> b = CHR 0x80 \<and>
         ((128::nat) \<le> of_char c \<and> of_char c \<le> (138::nat) \<or>
          c = CHR 0xA8 \<or> c = CHR 0xA9 \<or> c = CHR 0xAF)) \<or>
      (a = CHR 0xE2 \<and> b = CHR 0x81 \<and> c = CHR 0x9F) \<or>
      (a = CHR 0xE3 \<and> b = CHR 0x80 \<and> c = CHR 0x80))"

fun TrimLeft :: "string \<Rightarrow> string" where
  "TrimLeft (a # b # c # s) =
     (if ascii_space a then TrimLeft (b # c # s)
      else if space2 a b then TrimLeft (c # s)
      else if space3 a b c then TrimLeft s
      else a # b # c # s)"
| "TrimLeft [a, b] =
     (if ascii_space a then TrimLeft [b] else if space2 a b then [] else [a, b])"
| "TrimLeft [a] = (if ascii_space a then [] else [a])"
| "TrimLeft [] = []"

text \<open>The same from the right end, on the reversed string.\<close>

fun TrimRightRev :: "string \<Rightarrow> string" where
  "TrimRightRev (c # b # a # s) =
     (if ascii_space c then TrimRightRev (b # a # s)
      else if space2 b c then TrimRightRev (a # s)
      else if space3 a b c then TrimRightRev s
      else c # b # a # s)"
| "TrimRightRev [c, b] =
     (if ascii_space c then TrimRightRev [b] else if space2 b c then [] else [c, b])"
| "TrimRightRev [c] = (if ascii_space c then [] else [c])"
| "TrimRightRev [] = []"

definition TrimSpace :: "string \<Rightarrow> string" where
  "TrimSpace s = rev (TrimRightRev (rev (TrimLeft s)))"

section \<open>The regular expressions that \<open>Match\<close> compiles\<close>

text \<open>
  \<open>Match\<close> hands the translated pattern to Go's \<open>regexp.Compile\<close>.  That
  library is not part of the repository; the fragment of its syntax that the
  translation of a pattern without further metacharacters produces is modelled
  here, after the documentation of \<open>regexp/syntax\<close>:
  \<^item> \<open>^\<close> and \<open>$\<close> hold at the beginning and at the end of the text (no
    multi-line flag is set);
  \<^item> \<open>.*\<close> is any run of characters other than newline (the flag \<open>s\<close> is not
    set);
  \<^item> a backslash before an ASCII punctuation character makes it a literal;
  \<^item> any other ASCII character that is no metacharacter is a literal, and
    \<open>x*\<close> is zero or more of the literal \<open>x\<close>;
  \<^item> a backslash at the end, a \<open>*\<close> with nothing before it and a \<open>*\<close> directly
    after a \<open>*\<close> are the syntax errors of Go.
  On every other expression \<open>regexp_Compile\<close> is \<open>None\<close>: the model says nothing
  there (a \<open>.\<close> without \<open>*\<close>, groups, classes, alternation, \<open>+\<close>, \<open>?\<close>, counted
  repetition, escapes of letters and digits, and bytes above 127, which Go
  decodes as UTF-8).  The text that is matched is any sequence of bytes.
\<close>

datatype error =
    RegexpError string
  | errNotFloat
  | NeedTwoDataPoints
  | NoTagsMatching string string
  | StartEndRequired
  | StartAfterEnd
  | EndInPast
  | AlertOrTagsRequired
  | ParseError string

text \<open>
  A result of a call into the regular-expression library: \<open>None\<close> outside the
  modelled fragment, otherwise the error or the value that Go returns.
\<close>

type_synonym 'a modelled = "(error + 'a) option"

definition and_then :: "('a \<Rightarrow> 'b) \<Rightarrow> 'a modelled \<Rightarrow> 'b modelled" where
  "and_then f r = map_option (map_sum id f) r"

datatype re_atom = Lit char | AnyNotNL

datatype re_item = BeginText | EndText | One re_atom | Star re_atom

type_synonym regexp = "re_item list"

datatype token = TLit char | TAny | TStar | TBegin | TEnd

definition is_ascii :: "char \<Rightarrow> bool" where
  "is_ascii c = (of_char c < (128::nat))"

definition is_alnum :: "char \<Rightarrow> bool" where
  "is_alnum c = (let n = (of_char c :: nat) in
     (48 \<le> n \<and> n \<le> 57) \<or> (65 \<le> n \<and> n \<le> 90) \<or> (97 \<le> n \<and> n \<le> 122))"

text \<open>The characters with a meaning of their own in the syntax.\<close>

definition is_meta :: "char \<Rightarrow> bool" where
  "is_meta c = (c = CHR 0x5C \<or> c \<in> set ''.+*?()|[]{}^$'')"

text \<open>What a backslash may precede in the fragment: ASCII punctuation.\<close>

definition is_punct :: "char \<Rightarrow> bool" where
  "is_punct c = (let n = (of_char c :: nat) in
     33 \<le> n \<and> n \<le> 126 \<and> \<not> is_alnum c \<and> c \<noteq> CHR ''_'')"

fun lex :: "string \<Rightarrow> token list modelled" where
  "lex [] = Some (Inr [])"
| "lex (c # cs) =
     (if c = CHR 0x5C then
        (case cs of
           [] \<Rightarrow> Some (Inl (RegexpError ''trailing backslash at end of expression''))
         | d # ds \<Rightarrow> if is_punct d then and_then (Cons (TLit d)) (lex ds) else None)
      else if c = CHR ''.'' then and_then (Cons TAny) (lex cs)
      else if c = CHR ''*'' then and_then (Cons TStar) (lex cs)
      else if c = CHR ''^'' then and_then (Cons TBegin) (lex cs)
      else if c = CHR ''$'' then and_then (Cons TEnd) (lex cs)
      else if is_meta c \<or> \<not> is_ascii c then None
      else and_then (Cons (TLit c)) (lex cs))"

fun atom_of :: "token \<Rightarrow> re_atom option" where
  "atom_of (TLit c) = Some (Lit c)"
| "atom_of TAny = Some AnyNotNL"
| "atom_of _ = None"

text \<open>
  \<open>items first ts\<close> groups the tokens into atoms and starred atoms; \<open>first\<close>
  says that nothing precedes \<open>ts\<close>, where a \<open>*\<close> has no argument.
\<close>

definition starred :: "token list \<Rightarrow> bool" where
  "starred ts = (case ts of TStar # _ \<Rightarrow> True | _ \<Rightarrow> False)"

fun items :: "bool \<Rightarrow> token list \<Rightarrow> regexp modelled" where
  "items first [] = Some (Inr [])"
| "items first (TBegin # ts) =
     (if starred ts then None else and_then (Cons BeginText) (items False ts))"
| "items first (TEnd # ts) =
     (if starred ts then None else and_then (Cons EndText) (items False ts))"
| "items first (TStar # ts) =
     (if first then Some (Inl (RegexpError ''missing argument to repetition operator''))
      else None)"
| "items first (t # ts) =
     (case atom_of t of
        None \<Rightarrow> None
      | Some a \<Rightarrow>
          (case ts of
             TStar # us \<Rightarrow>
               if starred us
               then Some (Inl (RegexpError ''invalid nested repetition operator''))
               else and_then (Cons (Star a)) (items False us)
           | _ \<Rightarrow>
               (case a of
                  Lit c \<Rightarrow> and_then (Cons (One a)) (items False ts)
                | AnyNotNL \<Rightarrow> None)))"

definition regexp_Compile :: "string \<Rightarrow> regexp modelled" where
  "regexp_Compile v =
     (case lex v of None \<Rightarrow> None | Some (Inl e) \<Rightarrow> Some (Inl e) | Some (Inr ts) \<Rightarrow> items True ts)"

fun atom_ok :: "re_atom \<Rightarrow> char \<Rightarrow> bool" where
  "atom_ok (Lit c) d = (c = d)"
| "atom_ok AnyNotNL d = (d \<noteq> newline)"

text \<open>
  \<open>run r b s\<close>: the expression \<open>r\<close> matches a prefix of \<open>s\<close>, where \<open>b\<close> says
  whether \<open>s\<close> starts at the beginning of the text.
\<close>

fun run :: "regexp \<Rightarrow> bool \<Rightarrow> string \<Rightarrow> bool" where
  "run [] b s = True"
| "run (BeginText # r) b s = (b \<and> run r b s)"
| "run (EndText # r) b s = (s = [] \<and> run r b s)"
| "run (One a # r) b [] = False"
| "run (One a # r) b (d # s) = (atom_ok a d \<and> run r False s)"
| "run (Star a # r) b [] = run r b []"
| "run (Star a # r) b (d # s) =
     (run r b (d # s) \<or> (atom_ok a d \<and> run (Star a # r) False s))"

text \<open>\<open>re.MatchString(s)\<close>: some substring of \<open>s\<close> matches.\<close>

fun search_from :: "regexp \<Rightarrow> bool \<Rightarrow> string \<Rightarrow> bool" where
  "search_from r b [] = run r b []"
| "search_from r b (d # s) = (run r b (d # s) \<or> search_from r False s)"

definition MatchString :: "regexp \<Rightarrow> string \<Rightarrow> bool" where
  "MatchString r s = search_from r True s"

section \<open>The pattern matcher\<close>

text \<open>
  \<open>Match\<close> of the search package: the pattern is translated, compiled, and
  the values that the compiled expression matches are kept, in their order.
\<close>

definition translate :: "string \<Rightarrow> string" where
  "translate search =
     (let v = Replace search (CHR ''.'') [CHR 0x5C, CHR ''.''];
          v = Replace v (CHR ''*'') ''.*''
      in ''^'' @ v @ ''$'')"

definition Match :: "string \<Rightarrow> string list \<Rightarrow> string list modelled" where
  "Match search values =
     (case regexp_Compile (translate search) of
        None \<Rightarrow> None
      | Some (Inl err) \<Rightarrow> Some (Inl err)
      | Some (Inr re) \<Rightarrow> Some (Inr (filter (MatchString re) values)))"

text \<open>
  The claim's reading of a pattern, written from the specification: every
  character stands for itself, except \<open>*\<close>, which stands for zero or more
  characters that satisfy \<open>any\<close>.  The specification takes \<open>any\<close> to hold for
  every character.
\<close>

fun glob :: "(char \<Rightarrow> bool) \<Rightarrow> string \<Rightarrow> string \<Rightarrow> bool" where
  "glob any [] s = (s = [])"
| "glob any (c # p) [] = (c = CHR ''*'' \<and> glob any p [])"
| "glob any (c # p) (d # s) =
     (if c = CHR ''*'' then glob any p (d # s) \<or> (any d \<and> glob any (c # p) s)
      else c = d \<and> glob any p s)"

definition glob_spec :: "string \<Rightarrow> string \<Rightarrow> bool" where
  "glob_spec = glob (\<lambda>d. True)"

definition glob_line :: "string \<Rightarrow> string \<Rightarrow> bool" where
  "glob_line = glob (\<lambda>d. d \<noteq> newline)"

text \<open>
  The patterns whose translation stays in the modelled fragment: ASCII
  characters, none of them a metacharacter other than \<open>.\<close> and \<open>*\<close>.
\<close>

definition glob_char :: "char \<Rightarrow> bool" where
  "glob_char c = (is_ascii c \<and> (c = CHR ''.'' \<or> c = CHR ''*'' \<or> \<not> is_meta c))"

definition glob_pattern :: "string \<Rightarrow> bool" where
  "glob_pattern p = list_all glob_char p"


section \<open>The search index\<close>

text \<open>
  \<open>float64\<close> is a type parameter \<open>'f\<close>; the operations on it that the code
  uses are passed to the functions that compute with it, and nothing is assumed
  about them.
\<close>

record 'f float64_ops =
  fzero :: 'f
  fsub :: "'f \<Rightarrow> 'f \<Rightarrow> 'f"
  fdiv :: "'f \<Rightarrow> 'f \<Rightarrow> 'f"
  of_int64 :: "64 word \<Rightarrow> 'f"

text \<open>
  A value of type \<open>interface{}\<close>: \<open>nil\<close>, a \<open>float64\<close>, or a value of another
  dynamic type (kept as its printed form).
\<close>

datatype 'f Value = VNil | VFloat64 'f | VOther string

type_synonym TagSet = "(string, string) fmap"

text \<open>\<open>opentsdb.DataPoint\<close>; the timestamp is an \<open>int64\<close>, read as signed.\<close>

record 'f DataPoint =
  dpMetric :: string
  dpTimestamp :: "64 word"
  dpValue :: "'f Value"
  dpTags :: TagSet

definition zero_DataPoint :: "'f DataPoint" where
  "zero_DataPoint = \<lparr>dpMetric = [], dpTimestamp = 0, dpValue = VNil, dpTags = fmempty\<rparr>"

text \<open>An array \<open>[2]T\<close> is a pair, read and written at the indices 0 and 1.\<close>

definition arr_get :: "'a \<times> 'a \<Rightarrow> nat \<Rightarrow> 'a" where
  "arr_get a i = (if i = 0 then fst a else snd a)"

definition arr_put :: "'a \<times> 'a \<Rightarrow> nat \<Rightarrow> 'a \<Rightarrow> 'a \<times> 'a" where
  "arr_put a i x = (if i = 0 then (x, snd a) else (fst a, x))"

text \<open>
  \<open>pair\<close>: the write index only grows, by one for each accepted point; it is
  a natural number here (the wrap-around of Go's \<open>int\<close> after \<open>2^63\<close> accepted
  points of one series is not modelled).
\<close>

record 'f pair =
  points :: "'f DataPoint \<times> 'f DataPoint"
  index :: nat

definition new_pair :: "'f pair" where
  "new_pair = \<lparr>points = (zero_DataPoint, zero_DataPoint), index = 0\<rparr>"

record MetricTagSet =
  mtsMetric :: string
  mtsTags :: TagSet

text \<open>
  Modelled from the spec: \<open>TagSet.String\<close> belongs to the vendored opentsdb
  package, which is not among the sources.  The specification calls it the
  canonical string form of the tag set, and the comment on \<open>GetLast\<close> gives its
  shape, \<open>{key=val,key2=val2}\<close>; the keys are taken in sorted order.
\<close>

definition TagSet_String :: "TagSet \<Rightarrow> string" where
  "TagSet_String t =
     ''{'' @ Join (map (\<lambda>(k, v). k @ ''='' @ v) (sorted_list_of_fmap t)) '','' @ ''}''"

definition key :: "MetricTagSet \<Rightarrow> string" where
  "key mts = mtsMetric mts @ TagSet_String (mtsTags mts)"

type_synonym present = "string set"
type_synonym duple = "string \<times> string"
type_synonym qmap = "duple \<rightharpoonup> present"
type_synonym smap = "string \<rightharpoonup> present"
type_synonym mtsmap = "string \<rightharpoonup> MetricTagSet"

text \<open>
  \<open>Search\<close>: the four tables, the last-two-points cache, the read replica
  (a \<open>Search\<close> of which only the tables are ever filled) and the flag that a
  copy is scheduled.
\<close>

record tables =
  Metric :: qmap
  Tagk :: smap
  Tagv :: qmap
  MetricTags :: mtsmap

record 'f Search = tables +
  Last :: "string \<rightharpoonup> 'f pair"
  read :: tables
  copy :: bool

definition no_tables :: tables where
  "no_tables = \<lparr>Metric = Map.empty, Tagk = Map.empty, Tagv = Map.empty, MetricTags = Map.empty\<rparr>"

definition NewSearch :: "'f Search" where
  "NewSearch = \<lparr>Metric = Map.empty, Tagk = Map.empty, Tagv = Map.empty,
     MetricTags = Map.empty, Last = Map.empty, read = no_tables, copy = False\<rparr>"

text \<open>
  \<open>Copy\<close>, followed by the reset of the flag: the body of the goroutine that
  \<open>Index\<close> starts, which runs under the lock a minute later.
\<close>

definition Copy :: "'f Search \<Rightarrow> 'f Search" where
  "Copy s = s\<lparr>read := \<lparr>Metric = Metric s, Tagk = Tagk s, Tagv = Tagv s,
     MetricTags = MetricTags s\<rparr>\<rparr>"

definition publish :: "'f Search \<Rightarrow> 'f Search" where
  "publish s = (Copy s)\<lparr>copy := False\<rparr>"

text \<open>\<open>m[q][x] = struct{}{}\<close>, after \<open>m[q]\<close> has been made where it was missing.\<close>

definition add_present :: "'k \<Rightarrow> string \<Rightarrow> ('k \<rightharpoonup> present) \<Rightarrow> ('k \<rightharpoonup> present)" where
  "add_present q x m = m(q \<mapsto> insert x (case m q of None \<Rightarrow> {} | Some p \<Rightarrow> p))"

text \<open>The body of the loop over the tags of a point.\<close>

definition index_tag :: "string \<Rightarrow> string \<times> string \<Rightarrow> 'f Search \<Rightarrow> 'f Search" where
  "index_tag metric kv s =
     (case kv of (k, v) \<Rightarrow>
        s\<lparr>Metric := add_present (k, v) metric (Metric s),
          Tagk := add_present metric k (Tagk s),
          Tagv := add_present (metric, k) v (Tagv s)\<rparr>)"

text \<open>The update of the cache: the slot at \<open>index % 2\<close> is compared and written.\<close>

definition promote :: "'f DataPoint \<Rightarrow> 'f pair \<Rightarrow> 'f pair" where
  "promote dp p =
     (if dpTimestamp (arr_get (points p) (index p mod 2)) <s dpTimestamp dp
      then p\<lparr>points := arr_put (points p) (index p mod 2) dp, index := index p + 1\<rparr>
      else p)"

text \<open>
  The body of the loop over the points.  Go visits the tags in an unspecified
  order; the model takes them in the order of their keys.
\<close>

definition index_dp :: "'f DataPoint \<Rightarrow> 'f Search \<Rightarrow> 'f Search" where
  "index_dp dp s =
     (let mts = \<lparr>mtsMetric = dpMetric dp, mtsTags = dpTags dp\<rparr>;
          k = key mts;
          s = s\<lparr>MetricTags := (MetricTags s)(k \<mapsto> mts)\<rparr>;
          s = fold (index_tag (dpMetric dp)) (sorted_list_of_fmap (dpTags dp)) s;
          p = (case Last s k of None \<Rightarrow> new_pair | Some p \<Rightarrow> p)
      in s\<lparr>Last := (Last s)(k \<mapsto> promote dp p)\<rparr>)"

definition Index :: "'f DataPoint list \<Rightarrow> 'f Search \<Rightarrow> 'f Search" where
  "Index mdp s = fold index_dp mdp (s\<lparr>copy := True\<rparr>)"

text \<open>\<open>e.Value.(float64)\<close> with the comma-ok form.\<close>

fun as_float64 :: "'f float64_ops \<Rightarrow> 'f Value \<Rightarrow> 'f \<times> bool" where
  "as_float64 F (VFloat64 x) = (x, True)"
| "as_float64 F _ = (fzero F, False)"

text \<open>\<open>GetLast\<close> returns both the value and the error.\<close>

definition GetLast ::
  "'f float64_ops \<Rightarrow> 'f Search \<Rightarrow> string \<Rightarrow> string \<Rightarrow> bool \<Rightarrow> 'f \<times> error option" where
  "GetLast F s metric tags diff =
     (case Last s (metric @ tags) of
        None \<Rightarrow> (fzero F, None)
      | Some p \<Rightarrow>
          (let e = arr_get (points p) ((index p + 1) mod 2);
               (v, ok) = as_float64 F (dpValue e);
               err = (if \<not> ok then Some errNotFloat else None)
           in if diff then
                (let o' = arr_get (points p) (index p mod 2);
                     (ov, ok) = as_float64 F (dpValue o');
                     err = (if \<not> ok then Some errNotFloat else err);
                     err = (if dpTimestamp o' = 0 \<or> dpTimestamp e = 0
                            then Some NeedTwoDataPoints else err)
                 in (fdiv F (fsub F v ov) (of_int64 F (dpTimestamp e - dpTimestamp o')), err))
              else (v, err)))"

text \<open>The keys of a set-valued entry, sorted (\<open>sort.Strings\<close>).\<close>

definition sorted_present :: "present option \<Rightarrow> string list" where
  "sorted_present r = (case r of None \<Rightarrow> [] | Some p \<Rightarrow> sorted_list_of_set p)"

definition tagValuesByMetricTagKey :: "'f Search \<Rightarrow> string \<Rightarrow> string \<Rightarrow> string list" where
  "tagValuesByMetricTagKey s metric tagk = sorted_present (Tagv (read s) (metric, tagk))"

definition TagValuesByMetricTagKey :: "'f Search \<Rightarrow> string \<Rightarrow> string \<Rightarrow> string list" where
  "TagValuesByMetricTagKey s metric tagk = tagValuesByMetricTagKey s metric tagk"

definition MetricsByTagPair :: "'f Search \<Rightarrow> string \<Rightarrow> string \<Rightarrow> string list" where
  "MetricsByTagPair s tagk tagv = sorted_present (Metric (read s) (tagk, tagv))"

definition TagKeysByMetric :: "'f Search \<Rightarrow> string \<Rightarrow> string list" where
  "TagKeysByMetric s metric = sorted_present (Tagk (read s) metric)"

text \<open>
  \<open>UniqueMetrics\<close>: a slice as long as the live table \<open>s.Tagk\<close> is made, the keys
  of the replica's table are written to its first places, and the slice is
  sorted.  Writing beyond the slice panics: the result is \<open>None\<close> then.
\<close>

definition UniqueMetrics :: "'f Search \<Rightarrow> string list option" where
  "UniqueMetrics s =
     (let n = card (dom (Tagk s));
          ks = sorted_list_of_set (dom (Tagk (read s)))
      in if length ks \<le> n then Some (sort (ks @ replicate (n - length ks) []))
         else None)"

text \<open>\<open>opentsdb.Query\<close>, of which \<open>Expand\<close> uses the metric and the tags.\<close>

record Query =
  qMetric :: string
  qTags :: TagSet

text \<open>The loop over the alternatives of one tag value, \<open>nvs\<close> being built up.\<close>

fun expand_alts ::
  "'f Search \<Rightarrow> string \<Rightarrow> string \<Rightarrow> string list \<Rightarrow> string list \<Rightarrow> string list modelled" where
  "expand_alts s metric k nvs [] = Some (Inr nvs)"
| "expand_alts s metric k nvs (v0 # vs) =
     (let v = TrimSpace v0 in
      if v = ''*'' \<or> \<not> Contains v (CHR ''*'')
      then expand_alts s metric k (nvs @ [v]) vs
      else (case Match v (TagValuesByMetricTagKey s metric k) of
              None \<Rightarrow> None
            | Some (Inl err) \<Rightarrow> Some (Inl err)
            | Some (Inr ns) \<Rightarrow> expand_alts s metric k (nvs @ ns) vs))"

text \<open>
  The loop over the tags of the query, which are rewritten in place; the tags
  as they stand are returned with the error.  Go visits the entries of
  \<open>q.Tags\<close> in an unspecified order: the order is the parameter \<open>visit\<close> of
  \<open>Expand\<close>, a list of the entries, each of them once (\<open>visits\<close>).
\<close>

fun expand_tags ::
  "'f Search \<Rightarrow> string \<Rightarrow> (string \<times> string) list \<Rightarrow> TagSet \<Rightarrow> (TagSet \<times> error option) option" where
  "expand_tags s metric [] tags = Some (tags, None)"
| "expand_tags s metric ((k, ov) # kvs) tags =
     (case expand_alts s metric k [] (Split ov (CHR ''|'')) of
        None \<Rightarrow> None
      | Some (Inl err) \<Rightarrow> Some (tags, Some err)
      | Some (Inr nvs) \<Rightarrow>
          if length nvs = 0 then Some (tags, Some (NoTagsMatching k ov))
          else expand_tags s metric kvs (fmupd k (Join nvs ''|'') tags))"

definition visits :: "TagSet \<Rightarrow> (string \<times> string) list \<Rightarrow> bool" where
  "visits t kvs = (distinct (map fst kvs) \<and> set kvs = set (sorted_list_of_fmap t))"

definition Expand ::
  "'f Search \<Rightarrow> (string \<times> string) list \<Rightarrow> Query \<Rightarrow> (Query \<times> error option) option" where
  "Expand s visit q =
     map_option (\<lambda>(tags, err). (q\<lparr>qTags := tags\<rparr>, err))
       (expand_tags s (qMetric q) visit (qTags q))"

section \<open>The silence engine\<close>

text \<open>
  \<open>expr.AlertKey\<close> is a string type: \<open>Matches\<close> compares it with \<open>""\<close>, and
  \<open>AddSilence\<close> builds it from \<open>alert + "{" + tagList + "}"\<close>.  A \<open>time.Time\<close>
  is an instant on a line of integers, the zero time being 0.
\<close>

type_synonym AlertKey = string
type_synonym Time = int

definition IsZero :: "Time \<Rightarrow> bool" where
  "IsZero t = (t = 0)"

definition Before :: "Time \<Rightarrow> Time \<Rightarrow> bool" where
  "Before t u = (t < u)"

definition After :: "Time \<Rightarrow> Time \<Rightarrow> bool" where
  "After t u = (u < t)"

record Silence =
  Start :: Time
  End :: Time
  Alert :: AlertKey

text \<open>
  Modelled from the spec: the methods of \<open>expr.AlertKey\<close> and its parser belong
  to the package expr, which is not among the sources.  The specification asks
  of them that a string of the form \<open>name{key=pattern,key2=pattern2}\<close> gives a
  name and a tag group (a mapping from tag key to pattern), and that the parser
  fails on malformed input.
\<close>

definition AlertKey_Name :: "AlertKey \<Rightarrow> string" where
  "AlertKey_Name a = takeWhile (\<lambda>c. c \<noteq> CHR ''{'') a"

definition tag_of :: "string \<Rightarrow> string \<times> string" where
  "tag_of kv = (takeWhile (\<lambda>c. c \<noteq> CHR ''='') kv, drop 1 (dropWhile (\<lambda>c. c \<noteq> CHR ''='') kv))"

definition AlertKey_body :: "AlertKey \<Rightarrow> string" where
  "AlertKey_body a = butlast (drop 1 (dropWhile (\<lambda>c. c \<noteq> CHR ''{'') a))"

definition Group :: "AlertKey \<Rightarrow> TagSet" where
  "Group a =
     (if AlertKey_body a = [] then fmempty
      else fmap_of_list (map tag_of (Split (AlertKey_body a) (CHR '',''))))"

definition well_formed :: "string \<Rightarrow> bool" where
  "well_formed a =
     (CHR ''{'' \<in> set a \<and> a \<noteq> [] \<and> last a = CHR ''}'' \<and>
      (AlertKey_body a = [] \<or>
       list_all (\<lambda>kv. CHR ''='' \<in> set kv) (Split (AlertKey_body a) (CHR '',''))))"

definition ParseAlertKey :: "string \<Rightarrow> error + AlertKey" where
  "ParseAlertKey a = (if well_formed a then Inr a else Inl (ParseError a))"

text \<open>
  Modelled from the spec: \<open>Matches\<close> calls a function \<open>Match\<close> of the package
  sched on one pattern and one value, with a Boolean result and an error; it
  is not among the sources.  The specification makes it the pattern matcher:
  \<open>.\<close> literal, \<open>*\<close> zero or more of any character, anchored at both ends.
\<close>

definition sched_Match :: "string \<Rightarrow> string \<Rightarrow> bool \<times> error option" where
  "sched_Match pattern v = (glob_spec pattern v, None)"

text \<open>
  The loop of \<open>Matches\<close> over the tag group of the rule, with its two early
  returns.  Go visits the group in an unspecified order; the model takes it in
  the order of its keys.
\<close>

fun match_group :: "TagSet \<Rightarrow> (string \<times> string) list \<Rightarrow> bool" where
  "match_group tags [] = True"
| "match_group tags ((k, pattern) # kps) =
     (case fmlookup tags k of
        None \<Rightarrow> False
      | Some tagv \<Rightarrow>
          (let (matched, err) = sched_Match pattern tagv
           in if \<not> matched then False else match_group tags kps))"

definition Matches :: "Silence \<Rightarrow> AlertKey \<Rightarrow> bool" where
  "Matches s alert =
     (if Alert s \<noteq> [] \<and> Alert s \<noteq> alert then False
      else match_group (Group alert) (sorted_list_of_fmap (Group (Alert s))))"

definition Silenced :: "Silence \<Rightarrow> Time \<Rightarrow> AlertKey \<Rightarrow> bool" where
  "Silenced s now alert =
     (if Before now (Start s) \<or> After now (End s) then False else Matches s alert)"

text \<open>
  The part of the \<open>Schedule\<close> that the engine works on: the rules by their
  identifier, the tracked alerts, each with whether its state is active, and
  the number of calls of \<open>Save\<close>.
\<close>

record Schedule =
  Silence :: "string \<rightharpoonup> Silence"
  status :: "AlertKey \<rightharpoonup> bool"
  saves :: nat

text \<open>
  \<open>AddSilence\<close>.  The identifier of a rule is a SHA-1 digest, which is the
  parameter \<open>ID\<close>; \<open>now\<close> is the clock that \<open>time.Since\<close> reads.  The result is
  the schedule after the call, the preview and the error.
\<close>

definition AddSilence ::
  "(Silence \<Rightarrow> string) \<Rightarrow> Time \<Rightarrow> Schedule \<Rightarrow> Time \<Rightarrow> Time \<Rightarrow> string \<Rightarrow> string \<Rightarrow> bool \<Rightarrow> string
     \<Rightarrow> Schedule \<times> (AlertKey \<rightharpoonup> bool) option \<times> error option" where
  "AddSilence ID now s start end' alert tagList confirm edit =
     (if IsZero start \<or> IsZero end' then (s, None, Some StartEndRequired)
      else if After start end' then (s, None, Some StartAfterEnd)
      else if now - end' > 0 then (s, None, Some EndInPast)
      else if alert = [] \<and> tagList = [] then (s, None, Some AlertOrTagsRequired)
      else
        (case ParseAlertKey (alert @ ''{'' @ tagList @ ''}'') of
           Inl err \<Rightarrow> (s, None, Some err)
         | Inr ak \<Rightarrow>
             (let si = \<lparr>Start = start, End = end', Alert = ak\<rparr> in
              if confirm
              then (s\<lparr>Silence := ((Silence s)(edit := None))(ID si \<mapsto> si),
                      saves := saves s + 1\<rparr>, None, None)
              else (s, Some (\<lambda>ak. case status s ak of
                                    None \<Rightarrow> None
                                  | Some active \<Rightarrow> if Matches si ak then Some active else None),
                    None))))"

definition ClearSilence :: "Schedule \<Rightarrow> string \<Rightarrow> Schedule \<times> error option" where
  "ClearSilence s ident = (s\<lparr>Silence := (Silence s)(ident := None), saves := saves s + 1\<rparr>, None)"

section \<open>What the translation of a pattern compiles to\<close>

text \<open>The tokens and the expression that a pattern of the fragment yields.\<close>

fun toks :: "string \<Rightarrow> token list" where
  "toks [] = []"
| "toks (c # p) = (if c = CHR ''*'' then TAny # TStar # toks p else TLit c # toks p)"

fun pat_items :: "string \<Rightarrow> regexp" where
  "pat_items [] = []"
| "pat_items (c # p) =
     (if c = CHR ''*'' then Star AnyNotNL # pat_items p else One (Lit c) # pat_items p)"

text \<open>
  An interpretation of the operations on \<open>float64\<close> by the real numbers, for
  running examples (no rounding, no infinities).
\<close>

definition real_ops :: "real float64_ops" where
  "real_ops = \<lparr>fzero = 0, fsub = (-), fdiv = (/), of_int64 = (\<lambda>w. real_of_int (sint w))\<rparr>"

section \<open>Notions used in the statements\<close>

text \<open>The composite key under which \<open>Index\<close> files a point.\<close>

definition series :: "'f DataPoint \<Rightarrow> string" where
  "series dp = key \<lparr>mtsMetric = dpMetric dp, mtsTags = dpTags dp\<rparr>"

text \<open>The pair that \<open>Index\<close> works on for a key: the stored one, or a new one.\<close>

definition last_pair :: "'f Search \<Rightarrow> string \<Rightarrow> 'f pair" where
  "last_pair s k = (case Last s k of None \<Rightarrow> new_pair | Some p \<Rightarrow> p)"

text \<open>A point of the series \<open>cpu{host=web-01}\<close>, for the examples.\<close>

definition cpu_point :: "64 word \<Rightarrow> real \<Rightarrow> real DataPoint" where
  "cpu_point t v = \<lparr>dpMetric = ''cpu'', dpTimestamp = t, dpValue = VFloat64 v,
     dpTags = fmap_of_list [(''host'', ''web-01'')]\<rparr>"

text \<open>Whether the assertion \<open>v.(float64)\<close> holds.\<close>

definition is_float64 :: "'f Value \<Rightarrow> bool" where
  "is_float64 v = (case v of VFloat64 x \<Rightarrow> True | _ \<Rightarrow> False)"

text \<open>
  What \<open>Index\<close> keeps true of a pair: the slots are written in turn, each with
  a positive timestamp, so a zero timestamp marks a slot never written.
\<close>

definition filled :: "'f pair \<Rightarrow> bool" where
  "filled p =
     (let t0 = dpTimestamp (fst (points p)); t1 = dpTimestamp (snd (points p))
      in if index p = 0 then t0 = 0 \<and> t1 = 0
         else if index p = 1 then 0 <s t0 \<and> t1 = 0
         else 0 <s t0 \<and> 0 <s t1)"

text \<open>
  Metric names and tag sets without the characters that delimit the parts of a
  key: no \<open>{\<close> in the metric, no \<open>=\<close> and no comma in a tag key, no comma in
  a tag value.  \<open>tag_text\<close> is the text of one tag in a key.
\<close>

definition clean_metric :: "string \<Rightarrow> bool" where
  "clean_metric m = (CHR ''{'' \<notin> set m)"

definition clean_tag :: "string \<Rightarrow> string \<Rightarrow> bool" where
  "clean_tag k v = (CHR ''='' \<notin> set k \<and> CHR '','' \<notin> set k \<and> CHR '','' \<notin> set v)"

definition clean_tags :: "TagSet \<Rightarrow> bool" where
  "clean_tags t = fmpred clean_tag t"

definition tag_text :: "string \<times> string \<Rightarrow> string" where
  "tag_text kv = fst kv @ ''='' @ snd kv"

text \<open>
  The alternatives that \<open>Expand\<close> hands to \<open>Match\<close>: those with a \<open>*\<close> that are
  not \<open>*\<close> itself.  \<open>expansion\<close> is what an alternative contributes, \<open>expanded\<close>
  what the alternatives of a tag value contribute together, one after the other.
  A tag value is \<open>expandable\<close> when its wildcard alternatives are patterns of the
  modelled fragment.
\<close>

definition wildcard :: "string \<Rightarrow> bool" where
  "wildcard v = (\<not> (v = ''*'' \<or> \<not> Contains v (CHR ''*'')))"

definition expansion :: "'f Search \<Rightarrow> string \<Rightarrow> string \<Rightarrow> string \<Rightarrow> string list" where
  "expansion s metric k v =
     (if wildcard v then filter (glob_line v) (TagValuesByMetricTagKey s metric k) else [v])"

definition expanded :: "'f Search \<Rightarrow> string \<Rightarrow> string \<Rightarrow> string \<Rightarrow> string list" where
  "expanded s metric k ov =
     concat (map (\<lambda>v. expansion s metric k (TrimSpace v)) (Split ov (CHR ''|'')))"

definition expandable :: "string \<Rightarrow> bool" where
  "expandable ov =
     list_all (\<lambda>v. wildcard (TrimSpace v) \<longrightarrow> glob_pattern (TrimSpace v)) (Split ov (CHR ''|''))"

text \<open>An index that has seen one point of \<open>cpu{host=web-01}\<close> and was published.\<close>

definition web_index :: "real Search" where
  "web_index = publish (Index [cpu_point 10 1] NewSearch)"

text \<open>The rewriting of one tag of a query, and the test that stops \<open>Expand\<close>.\<close>

definition rewrite_tag :: "'f Search \<Rightarrow> string \<Rightarrow> string \<times> string \<Rightarrow> TagSet \<Rightarrow> TagSet" where
  "rewrite_tag s m kv tags = fmupd (fst kv) (Join (expanded s m (fst kv) (snd kv)) ''|'') tags"

definition no_match :: "'f Search \<Rightarrow> string \<Rightarrow> string \<times> string \<Rightarrow> bool" where
  "no_match s m kv = (expanded s m (fst kv) (snd kv) = [])"

text \<open>
  The matching of a rule against an alert as the specification words it: the
  name of the rule is empty or the name of the alert, and every tag key of the
  rule is a tag key of the alert whose value matches the pattern of the rule.
\<close>

definition Matches_spec :: "Silence \<Rightarrow> AlertKey \<Rightarrow> bool" where
  "Matches_spec s alert =
     ((AlertKey_Name (Alert s) = [] \<or> AlertKey_Name (Alert s) = AlertKey_Name alert) \<and>
      fmpred (\<lambda>k pattern. case fmlookup (Group alert) k of
                               None \<Rightarrow> False
                             | Some tagv \<Rightarrow> glob_spec pattern tagv)
        (Group (Alert s)))"

text \<open>
  The validations of \<open>AddSilence\<close> in their order, each with its own error;
  the second one rejects a start after the end.
\<close>

definition validation :: "Time \<Rightarrow> Time \<Rightarrow> Time \<Rightarrow> string \<Rightarrow> string \<Rightarrow> error option" where
  "validation now start end' alert tagList =
     (if start = 0 \<or> end' = 0 then Some StartEndRequired
      else if end' < start then Some StartAfterEnd
      else if end' < now then Some EndInPast
      else if alert = [] \<and> tagList = [] then Some AlertOrTagsRequired
      else None)"

text \<open>A schedule with no rule and no alert.\<close>

definition no_schedule :: Schedule where
  "no_schedule = \<lparr>Silence = Map.empty, status = Map.empty, saves = 0\<rparr>"

section \<open>Properties of the pattern matcher\<close>

lemma and_then_simps [simp]:
  "and_then f None = None"
  "and_then f (Some (Inl e)) = Some (Inl e)"
  "and_then f (Some (Inr x)) = Some (Inr (f x))"
  by (simp_all add: and_then_def)

lemma is_punct_dot: "is_punct (CHR ''.'')"
  by (simp add: is_punct_def is_alnum_def)

lemma lex_translate:
  "glob_pattern p \<Longrightarrow> lex rest = Some (Inr ts) \<Longrightarrow>
   lex (Replace (Replace p (CHR ''.'') [CHR 0x5C, CHR ''.'']) (CHR ''*'') ''.*'' @ rest)
     = Some (Inr (toks p @ ts))"
proof (induction p)
  case Nil
  then show ?case by simp
next
  case (Cons c p)
  then have gp: "glob_pattern p" and gc: "glob_char c"
    by (simp_all add: glob_pattern_def)
  note IH = Cons.IH [OF gp Cons.prems(2)]
  show ?case
  proof (cases "c = CHR ''.''")
    case True
    then show ?thesis using IH by (simp add: is_punct_dot)
  next
    case nd: False
    show ?thesis
    proof (cases "c = CHR ''*''")
      case True
      then show ?thesis using IH by simp
    next
      case False
      with nd gc have "\<not> is_meta c" "is_ascii c" "c \<noteq> CHR 0x5C" "c \<noteq> CHR ''^''" "c \<noteq> CHR ''$''"
        by (auto simp: glob_char_def is_meta_def)
      with nd False show ?thesis using IH by simp
    qed
  qed
qed

lemma starred_toks: "starred (toks p @ TEnd # ts) \<Longrightarrow> False"
  by (cases p) (auto simp: starred_def split: if_splits)

lemma items_toks:
  "\<not> starred ts \<Longrightarrow> items False ts = Some (Inr r) \<Longrightarrow>
   items b (toks p @ TEnd # ts) = Some (Inr (pat_items p @ EndText # r))"
proof (induction p arbitrary: b)
  case Nil
  then show ?case by simp
next
  case (Cons c p)
  have ns: "\<not> starred (toks p @ TEnd # ts)" using starred_toks by blast
  show ?case
  proof (cases "c = CHR ''*''")
    case True
    then show ?thesis using Cons.IH [OF Cons.prems] ns by simp
  next
    case False
    from ns have "items b (TLit c # toks p @ TEnd # ts)
        = and_then (Cons (One (Lit c))) (items False (toks p @ TEnd # ts))"
      by (cases "toks p @ TEnd # ts") (auto simp: starred_def split: token.splits list.splits)
    then show ?thesis using False Cons.IH [OF Cons.prems] by simp
  qed
qed

lemma Compile_translate:
  assumes "glob_pattern p"
  shows "regexp_Compile (translate p) = Some (Inr (BeginText # pat_items p @ [EndText]))"
proof -
  have l: "lex ''$'' = Some (Inr [TEnd])" by simp
  have "lex (translate p) = Some (Inr (TBegin # toks p @ [TEnd]))"
    using lex_translate [OF assms l] by (simp add: translate_def)
  moreover have "items True (TBegin # toks p @ [TEnd])
      = Some (Inr (BeginText # pat_items p @ [EndText]))"
    using items_toks [of "[]" "[]" False p] starred_toks [of p "[]"] by (auto simp: starred_def)
  ultimately show ?thesis by (simp add: regexp_Compile_def)
qed

lemma run_pat_items: "run (pat_items p @ [EndText]) b s = glob (\<lambda>d. d \<noteq> newline) p s"
proof (induction "\<lambda>d. d \<noteq> newline" p s arbitrary: b rule: glob.induct)
  case (1 s)
  then show ?case by simp
next
  case (2 c p)
  then show ?case by simp
next
  case (3 c p d s)
  then show ?case by simp
qed

lemma search_Begin_False: "search_from (BeginText # r) False s = False"
  by (induction s) auto

lemma MatchString_anchored:
  "MatchString (BeginText # pat_items p @ [EndText]) s = glob_line p s"
  by (cases s) (simp_all add: MatchString_def search_Begin_False run_pat_items glob_line_def)

lemma Match_filter:
  assumes "glob_pattern search"
  shows "Match search values = Some (Inr (filter (glob_line search) values))"
  by (simp add: Match_def Compile_translate [OF assms] MatchString_anchored cong: filter_cong)

text \<open>
  C7, as the code has it.  For every pattern of ASCII characters none of which
  is a metacharacter of the regular expressions other than \<open>.\<close> and \<open>*\<close>, and
  for every list of candidates, \<open>Match\<close> returns without an error, in the
  candidates' order, exactly the candidates whose entire string matches the
  pattern read with \<open>.\<close> as a literal character and \<open>*\<close> as zero or more
  characters other than newline, anchored at both ends.
\<close>

theorem Match_glob:
  assumes "glob_pattern search"
  shows "Match search values = Some (Inr (filter (glob_line search) values))"
  using assms by (rule Match_filter)

text \<open>
  The examples of the claim: \<open>web*\<close> matches \<open>web-01\<close> and \<open>web\<close> but not
  \<open>xweb-01\<close>, and \<open>a.b\<close> matches \<open>a.b\<close> but not \<open>axb\<close>.
\<close>

theorem Match_glob_witness:
  "glob_pattern ''web*'' \<and> glob_pattern ''a.b'' \<and>
   Match ''web*'' [''web-01'', ''web'', ''xweb-01''] = Some (Inr [''web-01'', ''web'']) \<and>
   Match ''a.b'' [''a.b'', ''axb''] = Some (Inr [''a.b''])"
proof -
  have g1: "glob_pattern ''web*''" and g2: "glob_pattern ''a.b''"
    by (simp_all add: glob_pattern_def glob_char_def is_ascii_def is_meta_def)
  show ?thesis
    using g1 g2 Match_glob [OF g1, of "[''web-01'', ''web'', ''xweb-01'']"]
      Match_glob [OF g2, of "[''a.b'', ''axb'']"]
    by (simp add: glob_line_def newline_def)
qed

text \<open>
  C7 as stated fails where a candidate has a newline: the claim lets \<open>*\<close>
  stand for any character, the compiled \<open>.*\<close> does not cross a newline.
\<close>

theorem Match_newline_counterexample:
  "glob_spec ''*'' [CHR 0x0A] \<and> Match ''*'' [[CHR 0x0A]] = Some (Inr [])"
  by (simp add: glob_spec_def Match_def translate_def regexp_Compile_def starred_def
      MatchString_def newline_def)

section \<open>Properties of the index\<close>

lemma read_update [simp]:
  "read (s\<lparr>Metric := a\<rparr>) = read s"
  "read (s\<lparr>Tagk := b\<rparr>) = read s"
  "read (s\<lparr>Tagv := c\<rparr>) = read s"
  "read (s\<lparr>MetricTags := d\<rparr>) = read s"
  by (cases s, simp)+

lemma Metric_read_update [simp]:
  "Metric (s\<lparr>read := r\<rparr>) = Metric s"
  "Tagk (s\<lparr>read := r\<rparr>) = Tagk s"
  "Tagv (s\<lparr>read := r\<rparr>) = Tagv s"
  "MetricTags (s\<lparr>read := r\<rparr>) = MetricTags s"
  by (cases s, simp)+

lemma index_tag_more [simp]:
  "Last (index_tag m kv s) = Last s"
  "read (index_tag m kv s) = read s"
  "copy (index_tag m kv s) = copy s"
  "MetricTags (index_tag m kv s) = MetricTags s"
  by (simp_all add: index_tag_def split: prod.splits)

lemma fold_index_tag_Last [simp]: "Last (fold (index_tag m) kvs s) = Last s"
  by (induction kvs arbitrary: s) simp_all

lemma fold_index_tag_read [simp]: "read (fold (index_tag m) kvs s) = read s"
  by (induction kvs arbitrary: s) simp_all

lemma fold_index_tag_copy [simp]: "copy (fold (index_tag m) kvs s) = copy s"
  by (induction kvs arbitrary: s) simp_all

lemma fold_index_tag_MetricTags [simp]: "MetricTags (fold (index_tag m) kvs s) = MetricTags s"
  by (induction kvs arbitrary: s) simp_all

lemma Last_index_dp:
  "Last (index_dp dp s) = (Last s)(series dp \<mapsto> promote dp (last_pair s (series dp)))"
  by (simp add: index_dp_def Let_def series_def last_pair_def)

lemma last_pair_index_dp:
  "last_pair (index_dp dp s) k = (if k = series dp then promote dp (last_pair s k) else last_pair s k)"
  by (simp add: last_pair_def Last_index_dp)

lemma last_pair_copy [simp]: "last_pair (s\<lparr>copy := c\<rparr>) k = last_pair s k"
  by (simp add: last_pair_def)

lemma last_pair_fold:
  "last_pair (fold index_dp mdp s) k
     = fold promote (filter (\<lambda>dp. series dp = k) mdp) (last_pair s k)"
  by (induction mdp arbitrary: s) (simp_all add: last_pair_index_dp)

lemma last_pair_Index:
  "last_pair (Index mdp s) k
     = fold promote (filter (\<lambda>dp. series dp = k) mdp) (last_pair s k)"
  by (simp add: Index_def last_pair_fold)

lemma Last_index_dp_None:
  "Last (index_dp dp s) k = None \<longleftrightarrow> k \<noteq> series dp \<and> Last s k = None"
  by (simp add: Last_index_dp)

lemma Last_fold_None:
  "Last (fold index_dp mdp s) k = None \<longleftrightarrow> k \<notin> series ` set mdp \<and> Last s k = None"
  by (induction mdp arbitrary: s) (auto simp: Last_index_dp_None)

lemma Last_Index_None:
  "Last (Index mdp s) k = None \<longleftrightarrow> k \<notin> series ` set mdp \<and> Last s k = None"
  by (simp add: Index_def Last_fold_None)

lemma Last_last_pair: "Last s k \<noteq> None \<Longrightarrow> Last s k = Some (last_pair s k)"
  by (auto simp: last_pair_def)

lemma Last_Index_single:
  "Last (Index [dp] s) = (Last s)(series dp \<mapsto> promote dp (last_pair s (series dp)))"
  by (simp add: Index_def Last_index_dp)

lemma sless_trans: "a <s b \<Longrightarrow> b <s c \<Longrightarrow> a <s (c :: 64 word)"
  by (simp add: word_sless_alt)

text \<open>
  What the cache does keep.  Three points of one series that had no pair, with
  \<open>float64\<close> values (of the last two) and timestamps \<open>t1 < t2 < t3\<close>, \<open>0 < t2\<close>,
  are ingested in order: \<open>GetLast\<close> with \<open>diff\<close> set then returns
  \<open>(v3 - v2) / (t3 - t2)\<close> and no error.  A point of the series that comes
  afterwards with a timestamp not greater than \<open>t2\<close>, the timestamp of the
  older of the two stored points, leaves the cache and the result of
  \<open>GetLast\<close> unchanged.
\<close>

lemma GetLast_rate:
  fixes F :: "'f float64_ops" and s :: "'f Search"
  assumes m: "dpMetric p1 = m" "dpMetric p2 = m" "dpMetric p3 = m" "dpMetric p0 = m"
    and tg: "dpTags p1 = tg" "dpTags p2 = tg" "dpTags p3 = tg" "dpTags p0 = tg"
    and v: "dpValue p2 = VFloat64 v2" "dpValue p3 = VFloat64 v3"
    and fresh: "Last s (m @ TagSet_String tg) = None"
    and t: "0 <s dpTimestamp p2" "dpTimestamp p1 <s dpTimestamp p2" "dpTimestamp p2 <s dpTimestamp p3"
    and t0: "\<not> dpTimestamp p2 <s dpTimestamp p0"
  shows "GetLast F (Index [p1, p2, p3] s) m (TagSet_String tg) True
           = (fdiv F (fsub F v3 v2) (of_int64 F (dpTimestamp p3 - dpTimestamp p2)), None)
       \<and> Last (Index [p0] (Index [p1, p2, p3] s)) = Last (Index [p1, p2, p3] s)
       \<and> GetLast F (Index [p0] (Index [p1, p2, p3] s)) m (TagSet_String tg) True
           = GetLast F (Index [p1, p2, p3] s) m (TagSet_String tg) True"
proof -
  let ?k = "m @ TagSet_String tg"
  let ?s3 = "Index [p1, p2, p3] s"
  have k: "series p1 = ?k" "series p2 = ?k" "series p3 = ?k" "series p0 = ?k"
    by (simp_all add: series_def key_def m tg)
  have t13: "dpTimestamp p1 <s dpTimestamp p3" by (rule sless_trans [OF t(2) t(3)])
  have t03: "0 <s dpTimestamp p3" by (rule sless_trans [OF t(1) t(3)])
  have n2: "dpTimestamp p2 \<noteq> 0" using t(1) by auto
  have n3: "dpTimestamp p3 \<noteq> 0" using t03 by auto
  have l0: "last_pair s ?k = new_pair" by (simp add: last_pair_def fresh)
  have l: "last_pair ?s3 ?k = promote p3 (promote p2 (promote p1 new_pair))"
    by (simp add: last_pair_Index k l0)
  obtain p where p: "last_pair ?s3 ?k = p"
    and slot_o: "arr_get (points p) (index p mod 2) = p2"
    and slot_e: "arr_get (points p) ((index p + 1) mod 2) = p3"
  proof (cases "0 <s dpTimestamp p1")
    case True
    have q1: "promote p1 new_pair = \<lparr>points = (p1, zero_DataPoint), index = 1\<rparr>"
      using True by (simp add: promote_def new_pair_def arr_get_def arr_put_def zero_DataPoint_def)
    have q2: "promote p2 \<lparr>points = (p1, zero_DataPoint), index = 1\<rparr>
        = \<lparr>points = (p1, p2), index = 2\<rparr>"
      using t(1) by (simp add: promote_def arr_get_def arr_put_def zero_DataPoint_def)
    have q3: "promote p3 \<lparr>points = (p1, p2), index = 2\<rparr> = \<lparr>points = (p3, p2), index = 3\<rparr>"
      using t13 by (simp add: promote_def arr_get_def arr_put_def)
    have "last_pair ?s3 ?k = \<lparr>points = (p3, p2), index = 3\<rparr>"
      using l by (simp only: q1 q2 q3)
    then show ?thesis by (rule that) (simp_all add: arr_get_def)
  next
    case False
    have q1: "promote p1 new_pair = new_pair"
      using False by (simp add: promote_def new_pair_def arr_get_def zero_DataPoint_def)
    have q2: "promote p2 new_pair = \<lparr>points = (p2, zero_DataPoint), index = 1\<rparr>"
      using t(1) by (simp add: promote_def new_pair_def arr_get_def arr_put_def zero_DataPoint_def)
    have q3: "promote p3 \<lparr>points = (p2, zero_DataPoint), index = 1\<rparr>
        = \<lparr>points = (p2, p3), index = 2\<rparr>"
      using t03 by (simp add: promote_def arr_get_def arr_put_def zero_DataPoint_def)
    have "last_pair ?s3 ?k = \<lparr>points = (p2, p3), index = 2\<rparr>"
      using l by (simp only: q1 q2 q3)
    then show ?thesis by (rule that) (simp_all add: arr_get_def)
  qed
  have slot_e': "arr_get (points p) (Suc (index p) mod 2) = p3"
    using slot_e by simp
  have q0: "promote p0 p = p"
    using t0 by (simp add: promote_def slot_o)
  have "Last ?s3 ?k \<noteq> None"
    by (simp add: Last_Index_None k)
  then have L3: "Last ?s3 ?k = Some p"
    using Last_last_pair p by metis
  have g: "GetLast F ?s3 m (TagSet_String tg) True
           = (fdiv F (fsub F v3 v2) (of_int64 F (dpTimestamp p3 - dpTimestamp p2)), None)"
    unfolding GetLast_def L3 using n2 n3 by (simp add: slot_o slot_e' v)
  have same: "Last (Index [p0] ?s3) = Last ?s3"
    unfolding Last_Index_single k p q0 using L3 by (rule fun_upd_idem)
  have "GetLast F (Index [p0] ?s3) m (TagSet_String tg) True
           = GetLast F ?s3 m (TagSet_String tg) True"
    unfolding GetLast_def same ..
  with g same show ?thesis by simp
qed

lemma series_cpu_point: "series (cpu_point t v) = ''cpu{host=web-01}''"
  unfolding series_def cpu_point_def by code_simp

lemma String_host: "TagSet_String (fmap_of_list [(''host'', ''web-01'')]) = ''{host=web-01}''"
  by code_simp

lemma sless_numerals: "(0::64 word) <s 10" "(10::64 word) <s 20" "(20::64 word) <s 30" "(20::64 word) <s 25"
  "(25::64 word) <s 30" "\<not> (20::64 word) <s 15"
  by (simp_all add: word_sless_alt)

text \<open>The series \<open>cpu{host=web-01}\<close> with timestamps 10, 20, 30, then 15.\<close>

lemma GetLast_rate_example:
  "(0::64 word) <s 20 \<and> (10::64 word) <s 20 \<and> (20::64 word) <s 30 \<and> \<not> (20::64 word) <s 15
   \<and> GetLast real_ops (Index [cpu_point 10 1, cpu_point 20 2, cpu_point 30 4] NewSearch)
        ''cpu'' ''{host=web-01}'' True = ((4 - 2) / 10, None)
   \<and> Last (Index [cpu_point 15 7] (Index [cpu_point 10 1, cpu_point 20 2, cpu_point 30 4] NewSearch))
       = Last (Index [cpu_point 10 1, cpu_point 20 2, cpu_point 30 4] NewSearch)"
proof -
  let ?tg = "fmap_of_list [(''host'', ''web-01'')]"
  have fresh: "Last (NewSearch :: real Search) (''cpu'' @ TagSet_String ?tg) = None"
    by (simp add: NewSearch_def)
  have ts: "(0::64 word) <s dpTimestamp (cpu_point 20 2)"
    "dpTimestamp (cpu_point 10 1) <s dpTimestamp (cpu_point 20 2)"
    "dpTimestamp (cpu_point 20 2) <s dpTimestamp (cpu_point 30 4)"
    "\<not> dpTimestamp (cpu_point 20 2) <s dpTimestamp (cpu_point 15 7)"
    by (simp_all add: cpu_point_def word_sless_alt)
  have r: "GetLast real_ops (Index [cpu_point 10 1, cpu_point 20 2, cpu_point 30 4] NewSearch)
        ''cpu'' (TagSet_String ?tg) True
          = (fdiv real_ops (fsub real_ops 4 2)
               (of_int64 real_ops (dpTimestamp (cpu_point 30 4) - dpTimestamp (cpu_point 20 2))), None)
      \<and> Last (Index [cpu_point 15 7] (Index [cpu_point 10 1, cpu_point 20 2, cpu_point 30 4] NewSearch))
          = Last (Index [cpu_point 10 1, cpu_point 20 2, cpu_point 30 4] NewSearch)"
    using GetLast_rate [where F = real_ops and s = NewSearch and m = "''cpu''" and tg = ?tg
        and ?p1.0 = "cpu_point 10 1" and ?p2.0 = "cpu_point 20 2" and ?p3.0 = "cpu_point 30 4"
        and ?p0.0 = "cpu_point 15 7" and ?v2.0 = 2 and ?v3.0 = 4, OF _ _ _ _ _ _ _ _ _ _ fresh ts]
    by (simp add: cpu_point_def)
  have d: "fdiv real_ops (fsub real_ops 4 2)
       (of_int64 real_ops (dpTimestamp (cpu_point 30 4) - dpTimestamp (cpu_point 20 2))) = (4 - 2) / 10"
    by (simp add: real_ops_def cpu_point_def)
  show ?thesis
    using r unfolding d String_host by (simp add: word_sless_alt)
qed


lemma cpu_point_sel [simp]:
  "dpTimestamp (cpu_point t v) = t"
  "dpValue (cpu_point t v) = VFloat64 v"
  "dpMetric (cpu_point t v) = ''cpu''"
  by (simp_all add: cpu_point_def)

lemma zero_DataPoint_sel [simp]:
  "dpTimestamp zero_DataPoint = 0"
  "dpValue zero_DataPoint = VNil"
  by (simp_all add: zero_DataPoint_def)

lemma last_pair_NewSearch [simp]: "last_pair NewSearch k = new_pair"
  by (simp add: last_pair_def NewSearch_def)

lemma Last_NewSearch [simp]: "Last NewSearch k = None"
  by (simp add: NewSearch_def)

lemma Last_Index_eq:
  "k \<in> series ` set mdp \<Longrightarrow> Last (Index mdp s) k = Some (last_pair (Index mdp s) k)"
  by (rule Last_last_pair) (simp add: Last_Index_None)

lemmas pair_eval = promote_def new_pair_def arr_get_def arr_put_def word_sless_alt

text \<open>
  C2 fails on the code in its second half.  After the points with the
  timestamps 10, 20 and 30, a fourth point with the timestamp 25, which is
  less than 30, is promoted: \<open>Index\<close> compares it with the slot at
  \<open>index % 2\<close>, which holds the older point (timestamp 20), not with the most
  recent one.  The point is written over the older one, and \<open>GetLast\<close> then
  reports its value 7 in place of the value 4 of the most recent point.
\<close>

theorem Index_promotes_older_point:
  "(25::64 word) <s 30
   \<and> Last (Index [cpu_point 10 1, cpu_point 20 2, cpu_point 30 4] NewSearch) ''cpu{host=web-01}''
       = Some \<lparr>points = (cpu_point 30 4, cpu_point 20 2), index = 3\<rparr>
   \<and> Last (Index [cpu_point 25 7] (Index [cpu_point 10 1, cpu_point 20 2, cpu_point 30 4] NewSearch))
        ''cpu{host=web-01}''
       = Some \<lparr>points = (cpu_point 30 4, cpu_point 25 7), index = 4\<rparr>
   \<and> GetLast real_ops (Index [cpu_point 10 1, cpu_point 20 2, cpu_point 30 4] NewSearch)
        ''cpu'' ''{host=web-01}'' False = (4, None)
   \<and> GetLast real_ops (Index [cpu_point 25 7] (Index [cpu_point 10 1, cpu_point 20 2, cpu_point 30 4] NewSearch))
        ''cpu'' ''{host=web-01}'' False = (7, None)"
proof -
  let ?s3 = "Index [cpu_point 10 1, cpu_point 20 2, cpu_point 30 4] (NewSearch :: real Search)"
  let ?k = "''cpu{host=web-01}''"
  have l3: "last_pair ?s3 ?k = \<lparr>points = (cpu_point 30 4, cpu_point 20 2), index = 3\<rparr>"
    by (simp add: last_pair_Index series_cpu_point pair_eval)
  have L3: "Last ?s3 ?k = Some \<lparr>points = (cpu_point 30 4, cpu_point 20 2), index = 3\<rparr>"
    using Last_Index_eq [of ?k "[cpu_point 10 1, cpu_point 20 2, cpu_point 30 4]" NewSearch]
    by (simp add: series_cpu_point l3)
  have l4: "last_pair (Index [cpu_point 25 7] ?s3) ?k
      = \<lparr>points = (cpu_point 30 4, cpu_point 25 7), index = 4\<rparr>"
    by (simp add: last_pair_Index [of "[cpu_point 25 7]"] series_cpu_point l3 pair_eval)
  have L4: "Last (Index [cpu_point 25 7] ?s3) ?k
      = Some \<lparr>points = (cpu_point 30 4, cpu_point 25 7), index = 4\<rparr>"
    using Last_Index_eq [of ?k "[cpu_point 25 7]" ?s3]
    by (simp add: series_cpu_point l4)
  have g3: "GetLast real_ops ?s3 ''cpu'' ''{host=web-01}'' False = (4, None)"
    using L3 by (simp add: GetLast_def arr_get_def)
  have g4: "GetLast real_ops (Index [cpu_point 25 7] ?s3) ''cpu'' ''{host=web-01}'' False = (7, None)"
    using L4 by (simp add: GetLast_def arr_get_def)
  show ?thesis using L3 L4 g3 g4 by (simp add: word_sless_alt)
qed

text \<open>
  C10.  For every metric and tag string for which the cache holds no pair,
  \<open>GetLast\<close> returns the value zero and no error, whether \<open>diff\<close> is set or
  not.
\<close>

theorem GetLast_unknown:
  "Last s (metric @ tags) = None \<Longrightarrow> GetLast F s metric tags diff = (fzero F, None)"
  by (simp add: GetLast_def)

text \<open>After a point of \<open>cpu{host=web-01}\<close>, the series \<open>mem{host=web-01}\<close> is unknown.\<close>

theorem GetLast_unknown_witness:
  "Last (Index [cpu_point 10 1] NewSearch) (''mem'' @ ''{host=web-01}'') = None
   \<and> GetLast real_ops (Index [cpu_point 10 1] NewSearch) ''mem'' ''{host=web-01}'' True = (0, None)
   \<and> GetLast real_ops (Index [cpu_point 10 1] NewSearch) ''mem'' ''{host=web-01}'' False = (0, None)"
proof -
  have n: "Last (Index [cpu_point 10 1] (NewSearch :: real Search)) (''mem'' @ ''{host=web-01}'') = None"
    by (simp add: Last_Index_None series_cpu_point)
  show ?thesis
    using n GetLast_unknown [OF n, of real_ops True] GetLast_unknown [OF n, of real_ops False]
    by (simp add: real_ops_def)
qed


lemma snd_as_float64 [simp]: "snd (as_float64 F v) = is_float64 v"
  by (cases v) (simp_all add: is_float64_def)

lemma filled_new_pair: "filled new_pair"
  by (simp add: filled_def new_pair_def zero_DataPoint_def)

lemma filled_promote: "filled p \<Longrightarrow> filled (promote dp p)"
proof (cases "dpTimestamp (arr_get (points p) (index p mod 2)) <s dpTimestamp dp")
  case False
  then show "filled p \<Longrightarrow> filled (promote dp p)" by (simp add: promote_def)
next
  case True
  assume f: "filled p"
  consider "index p = 0" | "index p = 1" | "2 \<le> index p" "index p mod 2 = 0"
    | "2 \<le> index p" "index p mod 2 = 1" by arith
  then show "filled (promote dp p)"
  proof cases
    case 1
    then show ?thesis using f True
      by (simp add: filled_def promote_def arr_get_def arr_put_def)
  next
    case 2
    then show ?thesis using f True
      by (simp add: filled_def promote_def arr_get_def arr_put_def)
  next
    case 3
    then show ?thesis using f True
      by (auto simp: filled_def promote_def arr_get_def arr_put_def Let_def word_sless_alt)
  next
    case 4
    then show ?thesis using f True
      by (auto simp: filled_def promote_def arr_get_def arr_put_def Let_def word_sless_alt)
  qed
qed

lemma filled_fold: "filled p \<Longrightarrow> filled (fold promote dps p)"
  by (induction dps arbitrary: p) (simp_all add: filled_promote)

lemma filled_placeholder:
  assumes "filled p"
  shows "(dpTimestamp (arr_get (points p) (index p mod 2)) = 0
          \<or> dpTimestamp (arr_get (points p) ((index p + 1) mod 2)) = 0) \<longleftrightarrow> index p < 2"
proof -
  consider "index p = 0" | "index p = 1" | "2 \<le> index p" by linarith
  then show ?thesis
  proof cases
    case 1 then show ?thesis using assms by (simp add: filled_def arr_get_def)
  next
    case 2 then show ?thesis using assms by (simp add: filled_def arr_get_def)
  next
    case 3 then show ?thesis using assms by (auto simp: filled_def arr_get_def Let_def)
  qed
qed

text \<open>
  C5, as the code has it.  For a series with a stored pair: with \<open>diff\<close> set,
  \<open>GetLast\<close> reports that it needs two data points whenever the timestamp of
  either stored point is zero, and otherwise reports a value that is no
  \<open>float64\<close> whenever either stored value is none; for a pair that \<open>Index\<close>
  has built from a new one, the first happens exactly when fewer than two
  points have been written to it.  With \<open>diff\<close> not set, \<open>GetLast\<close> looks at
  the newest point only: it reports a value that is no \<open>float64\<close> exactly when
  that point's value is none, and never that it needs two data points.
\<close>

theorem GetLast_errors:
  assumes "Last s (metric @ tags) = Some p"
  shows "snd (GetLast F s metric tags True) =
           (if dpTimestamp (arr_get (points p) (index p mod 2)) = 0
               \<or> dpTimestamp (arr_get (points p) ((index p + 1) mod 2)) = 0
            then Some NeedTwoDataPoints
            else if is_float64 (dpValue (arr_get (points p) ((index p + 1) mod 2)))
                    \<and> is_float64 (dpValue (arr_get (points p) (index p mod 2)))
                 then None else Some errNotFloat)
       \<and> snd (GetLast F s metric tags False) =
           (if is_float64 (dpValue (arr_get (points p) ((index p + 1) mod 2)))
            then None else Some errNotFloat)
       \<and> (p = fold promote dps new_pair \<longrightarrow>
            (snd (GetLast F s metric tags True) = Some NeedTwoDataPoints \<longleftrightarrow> index p < 2))"
proof -
  have a: "snd (GetLast F s metric tags True) =
           (if dpTimestamp (arr_get (points p) (index p mod 2)) = 0
               \<or> dpTimestamp (arr_get (points p) ((index p + 1) mod 2)) = 0
            then Some NeedTwoDataPoints
            else if is_float64 (dpValue (arr_get (points p) ((index p + 1) mod 2)))
                    \<and> is_float64 (dpValue (arr_get (points p) (index p mod 2)))
                 then None else Some errNotFloat)"
    using assms by (simp add: GetLast_def Let_def case_prod_beta)
  have b: "snd (GetLast F s metric tags False) =
           (if is_float64 (dpValue (arr_get (points p) ((index p + 1) mod 2)))
            then None else Some errNotFloat)"
    using assms by (simp add: GetLast_def Let_def case_prod_beta)
  have c: "snd (GetLast F s metric tags True) = Some NeedTwoDataPoints \<longleftrightarrow> index p < 2"
    if "p = fold promote dps new_pair"
  proof -
    have "filled p" unfolding that by (rule filled_fold [OF filled_new_pair])
    from filled_placeholder [OF this] show ?thesis unfolding a by auto
  qed
  from a b c show ?thesis by blast
qed


lemma one_point:
  "Last (Index [cpu_point 10 1] NewSearch) ''cpu{host=web-01}''
     = Some \<lparr>points = (cpu_point 10 1, zero_DataPoint), index = 1\<rparr>"
proof -
  have "last_pair (Index [cpu_point 10 1] NewSearch) ''cpu{host=web-01}''
      = \<lparr>points = (cpu_point 10 1, zero_DataPoint), index = 1\<rparr>"
    by (simp add: last_pair_Index series_cpu_point pair_eval)
  then show ?thesis
    using Last_Index_eq [of "''cpu{host=web-01}''" "[cpu_point 10 1]" NewSearch]
    by (simp add: series_cpu_point)
qed

text \<open>A series with one point: an error with \<open>diff\<close> set, none without.\<close>

theorem GetLast_errors_witness:
  "Last (Index [cpu_point 10 1] NewSearch) (''cpu'' @ ''{host=web-01}'')
     = Some \<lparr>points = (cpu_point 10 1, zero_DataPoint), index = 1\<rparr>
   \<and> \<lparr>points = (cpu_point 10 1, zero_DataPoint), index = 1\<rparr> = fold promote [cpu_point 10 1] new_pair
   \<and> snd (GetLast real_ops (Index [cpu_point 10 1] NewSearch) ''cpu'' ''{host=web-01}'' True)
       = Some NeedTwoDataPoints
   \<and> snd (GetLast real_ops (Index [cpu_point 10 1] NewSearch) ''cpu'' ''{host=web-01}'' False)
       = None"
proof -
  let ?p = "\<lparr>points = (cpu_point 10 1, zero_DataPoint), index = 1\<rparr>"
  have L: "Last (Index [cpu_point 10 1] NewSearch) (''cpu'' @ ''{host=web-01}'') = Some ?p"
    using one_point by simp
  have f: "?p = fold promote [cpu_point 10 1] new_pair"
    by (simp add: pair_eval)
  have r: "snd (GetLast real_ops (Index [cpu_point 10 1] NewSearch) ''cpu'' ''{host=web-01}'' True)
       = Some NeedTwoDataPoints
     \<and> snd (GetLast real_ops (Index [cpu_point 10 1] NewSearch) ''cpu'' ''{host=web-01}'' False)
       = None"
    using GetLast_errors [OF L, of real_ops "[cpu_point 10 1]"]
    by (simp add: arr_get_def is_float64_def)
  from L f r show ?thesis by blast
qed

text \<open>
  C5 as stated fails with \<open>diff\<close> not set: after one point, the other slot
  still holds the placeholder, whose value is \<open>nil\<close>, and \<open>GetLast\<close> returns the
  value of the point with no error.
\<close>

theorem GetLast_errors_counterexample:
  "Last (Index [cpu_point 10 1] NewSearch) ''cpu{host=web-01}''
     = Some \<lparr>points = (cpu_point 10 1, zero_DataPoint), index = 1\<rparr>
   \<and> dpValue (zero_DataPoint :: real DataPoint) = VNil
   \<and> GetLast real_ops (Index [cpu_point 10 1] NewSearch) ''cpu'' ''{host=web-01}'' False = (1, None)"
  using one_point by (simp add: GetLast_def arr_get_def)

lemma Tagk_index_tag: "Tagk (index_tag m kv s) = add_present m (fst kv) (Tagk s)"
  by (simp add: index_tag_def split: prod.splits)

lemma Metric_index_tag: "Metric (index_tag m kv s) = add_present kv m (Metric s)"
  by (simp add: index_tag_def split: prod.splits)

lemma Tagv_index_tag: "Tagv (index_tag m kv s) = add_present (m, fst kv) (snd kv) (Tagv s)"
  by (simp add: index_tag_def split: prod.splits)

lemma Tagk_fold_index_tag:
  "Tagk (fold (index_tag m) kvs s) = fold (\<lambda>kv. add_present m (fst kv)) kvs (Tagk s)"
  by (induction kvs arbitrary: s) (simp_all add: Tagk_index_tag)

lemma Metric_fold_index_tag:
  "Metric (fold (index_tag m) kvs s) = fold (\<lambda>kv. add_present kv m) kvs (Metric s)"
  by (induction kvs arbitrary: s) (simp_all add: Metric_index_tag)

lemma Tagv_fold_index_tag:
  "Tagv (fold (index_tag m) kvs s) = fold (\<lambda>kv. add_present (m, fst kv) (snd kv)) kvs (Tagv s)"
  by (induction kvs arbitrary: s) (simp_all add: Tagv_index_tag)

lemma Tagk_index_dp:
  "Tagk (index_dp dp s)
     = fold (\<lambda>kv. add_present (dpMetric dp) (fst kv)) (sorted_list_of_fmap (dpTags dp)) (Tagk s)"
  by (simp add: index_dp_def Let_def Tagk_fold_index_tag)

lemma Metric_index_dp:
  "Metric (index_dp dp s)
     = fold (\<lambda>kv. add_present kv (dpMetric dp)) (sorted_list_of_fmap (dpTags dp)) (Metric s)"
  by (simp add: index_dp_def Let_def Metric_fold_index_tag)

lemma Tagv_index_dp:
  "Tagv (index_dp dp s)
     = fold (\<lambda>kv. add_present (dpMetric dp, fst kv) (snd kv)) (sorted_list_of_fmap (dpTags dp)) (Tagv s)"
  by (simp add: index_dp_def Let_def Tagv_fold_index_tag)

lemma MetricTags_index_dp:
  "MetricTags (index_dp dp s)
     = (MetricTags s)(series dp \<mapsto> \<lparr>mtsMetric = dpMetric dp, mtsTags = dpTags dp\<rparr>)"
  by (simp add: index_dp_def Let_def series_def)

lemma read_index_dp [simp]: "read (index_dp dp s) = read s"
  by (simp add: index_dp_def Let_def)

lemma read_fold_index_dp [simp]: "read (fold index_dp mdp s) = read s"
  by (induction mdp arbitrary: s) simp_all

lemma read_Index [simp]: "read (Index mdp s) = read s"
  by (simp add: Index_def)

lemma tags_cpu_point: "sorted_list_of_fmap (dpTags (cpu_point t v)) = [(''host'', ''web-01'')]"
  unfolding cpu_point_def by code_simp

lemma Tagk_one_point: "Tagk (Index [cpu_point 10 1] NewSearch) = [''cpu'' \<mapsto> {''host''}]"
  by (simp add: Index_def Tagk_index_dp tags_cpu_point add_present_def NewSearch_def)

text \<open>
  C4 fails on the code.  After one point has been ingested and before the
  replica is refreshed, the replica knows no metric, and \<open>UniqueMetrics\<close>
  returns one empty string: the slice has the length of the live table.
\<close>

theorem UniqueMetrics_placeholder:
  "dom (Tagk (read (Index [cpu_point 10 1] NewSearch))) = {}
   \<and> UniqueMetrics (Index [cpu_point 10 1] NewSearch) = Some [[]]"
  by (simp add: UniqueMetrics_def Tagk_one_point) (simp add: NewSearch_def no_tables_def)


text \<open>
  C9 fails on the code in its last part.  A point ingested twice into a new
  series is written to both slots of the cache: the second time it is compared
  with the other slot, which holds the placeholder with timestamp zero.
\<close>

theorem Index_twice_promoted:
  "Last (Index [cpu_point 10 1] NewSearch) ''cpu{host=web-01}''
     = Some \<lparr>points = (cpu_point 10 1, zero_DataPoint), index = 1\<rparr>
   \<and> Last (Index [cpu_point 10 1] (Index [cpu_point 10 1] NewSearch)) ''cpu{host=web-01}''
     = Some \<lparr>points = (cpu_point 10 1, cpu_point 10 1), index = 2\<rparr>"
proof -
  let ?s1 = "Index [cpu_point 10 1] (NewSearch :: real Search)"
  have "last_pair ?s1 ''cpu{host=web-01}''
      = \<lparr>points = (cpu_point 10 1, zero_DataPoint), index = 1\<rparr>"
    using one_point by (simp add: last_pair_def)
  then have "last_pair (Index [cpu_point 10 1] ?s1) ''cpu{host=web-01}''
      = \<lparr>points = (cpu_point 10 1, cpu_point 10 1), index = 2\<rparr>"
    by (simp add: last_pair_Index [of "[cpu_point 10 1]"] series_cpu_point pair_eval)
  then have "Last (Index [cpu_point 10 1] ?s1) ''cpu{host=web-01}''
      = Some \<lparr>points = (cpu_point 10 1, cpu_point 10 1), index = 2\<rparr>"
    using Last_Index_eq [of "''cpu{host=web-01}''" "[cpu_point 10 1]" ?s1]
    by (simp add: series_cpu_point)
  with one_point show ?thesis by simp
qed

lemma add_present_idem: "add_present q x (add_present q x m) = add_present q x m"
  by (simp add: add_present_def)

lemma add_present_commute:
  "add_present q x (add_present q' y m) = add_present q' y (add_present q x m)"
  by (rule ext) (auto simp: add_present_def)

lemma fold_commute:
  assumes "\<And>a b m. f a (f b m) = f b (f a m)"
  shows "fold f xs (f a m) = f a (fold f xs m)"
proof (induction xs arbitrary: m)
  case Nil
  then show ?case by simp
next
  case (Cons b xs)
  have "fold f (b # xs) (f a m) = fold f xs (f a (f b m))"
    using assms [of b a m] by simp
  also have "\<dots> = f a (fold f xs (f b m))"
    by (rule Cons.IH)
  finally show ?case by simp
qed

lemma fold_member_absorb:
  assumes c: "\<And>a b m. f a (f b m) = f b (f a m)" and i: "\<And>a m. f a (f a m) = f a m"
  shows "a \<in> set xs \<Longrightarrow> f a (fold f xs m) = fold f xs m"
proof (induction xs arbitrary: m)
  case Nil
  then show ?case by simp
next
  case (Cons b xs)
  show ?case
  proof (cases "a = b")
    case True
    have "f a (fold f xs (f a m)) = fold f xs (f a (f a m))"
      by (simp add: fold_commute [of f, OF c])
    then show ?thesis using True by (simp add: i)
  next
    case False
    then have "a \<in> set xs" using Cons.prems by simp
    then show ?thesis using Cons.IH by simp
  qed
qed

lemma fold_absorb:
  assumes c: "\<And>a b m. f a (f b m) = f b (f a m)" and i: "\<And>a m. f a (f a m) = f a m"
  shows "set ys \<subseteq> set xs \<Longrightarrow> fold f ys (fold f xs m) = fold f xs m"
proof (induction ys)
  case Nil
  then show ?case by simp
next
  case (Cons a ys)
  then have "a \<in> set xs" "set ys \<subseteq> set xs" by simp_all
  then show ?case
    using Cons.IH by (simp add: fold_member_absorb [of f, OF c i])
qed

text \<open>The four tables do not change when a point is ingested a second time.\<close>

lemma index_dp_tables_idem:
  "Metric (index_dp dp (index_dp dp s)) = Metric (index_dp dp s)"
  "Tagk (index_dp dp (index_dp dp s)) = Tagk (index_dp dp s)"
  "Tagv (index_dp dp (index_dp dp s)) = Tagv (index_dp dp s)"
  "MetricTags (index_dp dp (index_dp dp s)) = MetricTags (index_dp dp s)"
proof -
  show "Metric (index_dp dp (index_dp dp s)) = Metric (index_dp dp s)"
    unfolding Metric_index_dp
    by (rule fold_absorb) (simp_all add: add_present_commute add_present_idem)
  show "Tagk (index_dp dp (index_dp dp s)) = Tagk (index_dp dp s)"
    unfolding Tagk_index_dp
    by (rule fold_absorb) (simp_all add: add_present_commute add_present_idem)
  show "Tagv (index_dp dp (index_dp dp s)) = Tagv (index_dp dp s)"
    unfolding Tagv_index_dp
    by (rule fold_absorb) (simp_all add: add_present_commute add_present_idem)
  show "MetricTags (index_dp dp (index_dp dp s)) = MetricTags (index_dp dp s)"
    by (simp add: MetricTags_index_dp)
qed

text \<open>Right after a refresh of the replica, \<open>UniqueMetrics\<close> returns its metrics.\<close>

lemma UniqueMetrics_published:
  assumes "finite (dom (Tagk s))"
  shows "UniqueMetrics (publish s) = Some (sorted_list_of_set (dom (Tagk s)))"
proof -
  have "Tagk (read (publish s)) = Tagk s" "Tagk (publish s) = Tagk s"
    by (simp_all add: publish_def Copy_def)
  then show ?thesis
    using assms by (simp add: UniqueMetrics_def Let_def sorted_sort_id)
qed


section \<open>Properties of the series key\<close>

lemma TagSet_String_alt:
  "TagSet_String t = ''{'' @ Join (map tag_text (sorted_list_of_fmap t)) '','' @ ''}''"
proof -
  have "(\<lambda>(k, v). k @ ''='' @ v) = tag_text"
    by (rule ext) (simp add: tag_text_def split: prod.splits)
  then show ?thesis by (simp add: TagSet_String_def)
qed

lemma append_sep_inject:
  "c \<notin> set x \<Longrightarrow> c \<notin> set y \<Longrightarrow> x @ c # r = y @ c # r' \<Longrightarrow> x = y \<and> r = r'"
proof (induction x arbitrary: y)
  case Nil
  then show ?case by (cases y) auto
next
  case (Cons a x)
  then show ?case by (cases y) auto
qed

lemma Split_no_sep: "c \<notin> set x \<Longrightarrow> Split x c = [x]"
  by (induction x) auto

lemma Split_append_sep: "c \<notin> set x \<Longrightarrow> Split (x @ c # r) c = x # Split r c"
  by (induction x) auto

lemma Split_Join:
  "xs \<noteq> [] \<Longrightarrow> \<forall>x \<in> set xs. c \<notin> set x \<Longrightarrow> Split (Join xs [c]) c = xs"
proof (induction xs "[c]" rule: Join.induct)
  case 1
  then show ?case by simp
next
  case (2 x)
  then show ?case by (simp add: Split_no_sep)
next
  case (3 x y ys)
  then show ?case by (simp add: Split_append_sep)
qed

lemma Join_Nil_iff: "\<forall>x \<in> set xs. x \<noteq> [] \<Longrightarrow> Join xs sep = [] \<longleftrightarrow> xs = []"
  by (induction xs sep rule: Join.induct) auto

lemma Join_inject:
  assumes "\<forall>x \<in> set xs. c \<notin> set x \<and> x \<noteq> []" "\<forall>y \<in> set ys. c \<notin> set y \<and> y \<noteq> []"
    and "Join xs [c] = Join ys [c]"
  shows "xs = ys"
proof (cases "xs = [] \<or> ys = []")
  case True
  have nx: "Join xs [c] = [] \<longleftrightarrow> xs = []" using assms(1) by (intro Join_Nil_iff) simp
  have ny: "Join ys [c] = [] \<longleftrightarrow> ys = []" using assms(2) by (intro Join_Nil_iff) simp
  from True show ?thesis
  proof
    assume "xs = []"
    then show ?thesis using nx ny assms(3) by simp
  next
    assume "ys = []"
    then show ?thesis using nx ny assms(3) by simp
  qed
next
  case False
  then have "Split (Join xs [c]) c = xs" "Split (Join ys [c]) c = ys"
    using assms(1,2) by (simp_all add: Split_Join)
  then show ?thesis using assms(3) by metis
qed

lemma tag_text_inject:
  "CHR ''='' \<notin> set (fst a) \<Longrightarrow> CHR ''='' \<notin> set (fst b) \<Longrightarrow> tag_text a = tag_text b \<Longrightarrow> a = b"
  using append_sep_inject [of "CHR ''=''" "fst a" "fst b" "snd a" "snd b"]
  by (simp add: tag_text_def prod_eq_iff)

lemma clean_tags_list:
  "clean_tags t \<Longrightarrow> (k, v) \<in> set (sorted_list_of_fmap t) \<Longrightarrow> clean_tag k v"
  using list_all_sorted_list [of "\<lambda>(k, v). clean_tag k v" t]
  by (auto simp: clean_tags_def list_all_iff curry_def fmpred_iff case_prod_beta)

lemma sorted_list_of_fmap_inject:
  "sorted_list_of_fmap t = sorted_list_of_fmap u \<Longrightarrow> t = u"
  by (metis map_of_sorted_list fmlookup_inject)

text \<open>
  C8, as the code has it.  The key is injective on the series whose metric
  name has no \<open>{\<close>, whose tag keys have neither \<open>=\<close> nor a comma and whose
  tag values have no comma: two of them have the same key if and only if
  their metric names and their tag sets are the same.
\<close>

theorem key_injective:
  assumes "clean_metric (mtsMetric a)" "clean_metric (mtsMetric b)"
    and "clean_tags (mtsTags a)" "clean_tags (mtsTags b)"
  shows "key a = key b \<longleftrightarrow> mtsMetric a = mtsMetric b \<and> mtsTags a = mtsTags b"
proof
  assume "mtsMetric a = mtsMetric b \<and> mtsTags a = mtsTags b"
  then show "key a = key b" by (simp add: key_def)
next
  let ?xs = "map tag_text (sorted_list_of_fmap (mtsTags a))"
  let ?ys = "map tag_text (sorted_list_of_fmap (mtsTags b))"
  assume "key a = key b"
  then have e: "mtsMetric a @ CHR ''{'' # (Join ?xs '','' @ ''}'')
      = mtsMetric b @ CHR ''{'' # (Join ?ys '','' @ ''}'')"
    by (simp add: key_def TagSet_String_alt)
  from append_sep_inject [OF _ _ e] assms(1,2)
  have m: "mtsMetric a = mtsMetric b" and j: "Join ?xs '','' = Join ?ys '',''"
    by (simp_all add: clean_metric_def)
  have cx: "\<forall>x \<in> set ?xs. CHR '','' \<notin> set x \<and> x \<noteq> []"
    using clean_tags_list [OF assms(3)] by (auto simp: tag_text_def clean_tag_def)
  have cy: "\<forall>y \<in> set ?ys. CHR '','' \<notin> set y \<and> y \<noteq> []"
    using clean_tags_list [OF assms(4)] by (auto simp: tag_text_def clean_tag_def)
  have "?xs = ?ys" by (rule Join_inject [OF cx cy j])
  moreover have "inj_on tag_text (set (sorted_list_of_fmap (mtsTags a)) \<union> set (sorted_list_of_fmap (mtsTags b)))"
    using clean_tags_list [OF assms(3)] clean_tags_list [OF assms(4)]
    by (intro inj_onI tag_text_inject) (auto simp: clean_tag_def)
  ultimately have "sorted_list_of_fmap (mtsTags a) = sorted_list_of_fmap (mtsTags b)"
    using inj_on_map_eq_map by blast
  then have "mtsTags a = mtsTags b" by (rule sorted_list_of_fmap_inject)
  with m show "mtsMetric a = mtsMetric b \<and> mtsTags a = mtsTags b" by simp
qed

text \<open>
  C8 as stated fails: the key is a concatenation, and a tag value with a comma
  and an equals sign reads like two tags.
\<close>

theorem key_collision:
  "fmap_of_list [(''a'', ''1,b=2'')] \<noteq> fmap_of_list [(''a'', ''1''), (''b'', ''2'')]
   \<and> key \<lparr>mtsMetric = ''m'', mtsTags = fmap_of_list [(''a'', ''1,b=2'')]\<rparr> = ''m{a=1,b=2}''
   \<and> key \<lparr>mtsMetric = ''m'', mtsTags = fmap_of_list [(''a'', ''1''), (''b'', ''2'')]\<rparr> = ''m{a=1,b=2}''"
  by code_simp

text \<open>Two series of the metric \<open>cpu\<close> that differ in the host.\<close>

theorem key_injective_witness:
  "clean_metric ''cpu'' \<and> clean_tags (fmap_of_list [(''host'', ''web-01'')])
   \<and> clean_tags (fmap_of_list [(''host'', ''web-02'')])
   \<and> key \<lparr>mtsMetric = ''cpu'', mtsTags = fmap_of_list [(''host'', ''web-01'')]\<rparr>
       \<noteq> key \<lparr>mtsMetric = ''cpu'', mtsTags = fmap_of_list [(''host'', ''web-02'')]\<rparr>"
proof -
  have c: "clean_metric ''cpu''" "clean_tags (fmap_of_list [(''host'', ''web-01'')])"
    "clean_tags (fmap_of_list [(''host'', ''web-02'')])"
    by code_simp+
  have "fmap_of_list [(''host'', ''web-01'')] \<noteq> fmap_of_list [(''host'', ''web-02'')]"
    by code_simp
  then show ?thesis
    using c key_injective [of "\<lparr>mtsMetric = ''cpu'', mtsTags = fmap_of_list [(''host'', ''web-01'')]\<rparr>"
        "\<lparr>mtsMetric = ''cpu'', mtsTags = fmap_of_list [(''host'', ''web-02'')]\<rparr>"]
    by simp
qed


section \<open>Properties of the expansion of queries\<close>

lemma expand_alts_eq:
  "list_all (\<lambda>v. wildcard (TrimSpace v) \<longrightarrow> glob_pattern (TrimSpace v)) vs \<Longrightarrow>
   expand_alts s m k nvs vs
     = Some (Inr (nvs @ concat (map (\<lambda>v. expansion s m k (TrimSpace v)) vs)))"
proof (induction vs arbitrary: nvs)
  case Nil
  then show ?case by simp
next
  case (Cons v vs)
  show ?case
  proof (cases "wildcard (TrimSpace v)")
    case True
    then have "glob_pattern (TrimSpace v)" using Cons.prems by simp
    then show ?thesis
      using True Cons.IH Cons.prems
      by (simp add: Match_filter expansion_def Let_def wildcard_def)
  next
    case False
    then show ?thesis
      using Cons.IH Cons.prems by (auto simp add: expansion_def Let_def wildcard_def)
  qed
qed

lemma expand_tags_eq:
  "list_all (\<lambda>kv. expandable (snd kv)) kvs \<Longrightarrow>
   expand_tags s m kvs tags
     = Some (case find (no_match s m) kvs of
               None \<Rightarrow> (fold (rewrite_tag s m) kvs tags, None)
             | Some kv \<Rightarrow> (fold (rewrite_tag s m) (takeWhile (\<lambda>kv. \<not> no_match s m kv) kvs) tags,
                           Some (NoTagsMatching (fst kv) (snd kv))))"
proof (induction kvs arbitrary: tags)
  case Nil
  then show ?case by simp
next
  case (Cons kv kvs)
  obtain k ov where kv: "kv = (k, ov)" by (cases kv)
  have a: "expand_alts s m k [] (Split ov (CHR ''|'')) = Some (Inr (expanded s m k ov))"
    using Cons.prems by (simp add: kv expandable_def expand_alts_eq expanded_def)
  show ?case
    using Cons.IH Cons.prems unfolding kv
    by (simp add: a no_match_def rewrite_tag_def split: option.splits)
qed

lemma keys_sorted_list_of_fmap: "map fst (sorted_list_of_fmap t) = sorted_list_of_fset (fmdom t)"
  by (simp add: sorted_list_of_fmap_def comp_def)

lemma distinct_sorted_list_of_fset: "distinct (sorted_list_of_fset S)"
  by (simp add: sorted_list_of_fset.rep_eq)

lemma distinct_keys: "distinct (map fst (sorted_list_of_fmap t))"
  unfolding keys_sorted_list_of_fmap by (rule distinct_sorted_list_of_fset)

lemma lookup_fold_rewrite:
  "distinct (map fst kvs) \<Longrightarrow>
   fmlookup (fold (rewrite_tag s m) kvs tags) k
     = (case map_of kvs k of
          None \<Rightarrow> fmlookup tags k
        | Some ov \<Rightarrow> Some (Join (expanded s m k ov) ''|''))"
proof (induction kvs arbitrary: tags)
  case Nil
  then show ?case by simp
next
  case (Cons kv kvs)
  then show ?case
    by (cases kv) (auto simp: rewrite_tag_def split: option.splits dest: map_of_SomeD
        intro: rev_image_eqI)
qed

lemma visits_lookup:
  assumes "visits t kvs"
  shows "(k, ov) \<in> set kvs \<longleftrightarrow> fmlookup t k = Some ov"
proof -
  have "map_of (sorted_list_of_fmap t) k = Some ov \<longleftrightarrow> (k, ov) \<in> set (sorted_list_of_fmap t)"
    by (rule map_of_eq_Some_iff) (rule distinct_keys)
  then have "(k, ov) \<in> set (sorted_list_of_fmap t) \<longleftrightarrow> fmlookup t k = Some ov"
    by simp
  then show ?thesis using assms by (simp add: visits_def)
qed

lemma visits_map_of:
  assumes "visits t kvs"
  shows "map_of kvs k = fmlookup t k"
proof (cases "fmlookup t k")
  case None
  then have "\<And>ov. (k, ov) \<notin> set kvs" using visits_lookup [OF assms] by simp
  then have "map_of kvs k = None" by (meson map_of_SomeD not_None_eq)
  with None show ?thesis by simp
next
  case (Some ov)
  then have "(k, ov) \<in> set kvs" using visits_lookup [OF assms] by simp
  moreover have "distinct (map fst kvs)" using assms by (simp add: visits_def)
  ultimately have "map_of kvs k = Some ov" by simp
  with Some show ?thesis by simp
qed

text \<open>
  C3, as the code has it.  For every query whose wildcard alternatives are
  patterns of the modelled fragment (ASCII characters, no metacharacter other
  than \<open>.\<close> and \<open>*\<close>), and for every order in which the tags are visited,
  \<open>Expand\<close> fails exactly when, for some tag, the alternatives of its value
  together contribute no value, and the error names such a tag.  An
  alternative that matches nothing beside one that contributes a value is
  dropped.  When \<open>Expand\<close> does not fail, every tag value is replaced by the
  contributions of its alternatives, joined with \<open>|\<close>: the alternative itself
  when it is \<open>*\<close> or has no \<open>*\<close>, the matching tag values otherwise.
\<close>

theorem Expand_result:
  assumes "fmpred (\<lambda>k ov. expandable ov) (qTags q)" and "visits (qTags q) visit"
  shows "\<exists>q' err. Expand s visit q = Some (q', err)
     \<and> (err = None \<longleftrightarrow>
          (\<forall>k ov. fmlookup (qTags q) k = Some ov \<longrightarrow> expanded s (qMetric q) k ov \<noteq> []))
     \<and> (err = None \<longrightarrow>
          q' = q\<lparr>qTags := fmmap_keys (\<lambda>k ov. Join (expanded s (qMetric q) k ov) ''|'') (qTags q)\<rparr>)
     \<and> (\<forall>e. err = Some e \<longrightarrow>
          (\<exists>k ov. fmlookup (qTags q) k = Some ov \<and> expanded s (qMetric q) k ov = []
             \<and> e = NoTagsMatching k ov))"
proof -
  let ?m = "qMetric q"
  note look = visits_lookup [OF assms(2)]
  have d: "distinct (map fst visit)" using assms(2) by (simp add: visits_def)
  have l: "list_all (\<lambda>kv. expandable (snd kv)) visit"
    unfolding list_all_iff
  proof
    fix kv assume "kv \<in> set visit"
    then have "fmlookup (qTags q) (fst kv) = Some (snd kv)" using look [of "fst kv" "snd kv"] by simp
    then show "expandable (snd kv)" using assms(1) by (simp add: fmpred_iff)
  qed
  note E = expand_tags_eq [OF l, of s ?m "qTags q"]
  show ?thesis
  proof (cases "find (no_match s ?m) visit")
    case None
    then have "\<forall>kv \<in> set visit. \<not> no_match s ?m kv"
      by (auto simp: find_None_iff)
    then have all: "\<forall>k ov. fmlookup (qTags q) k = Some ov \<longrightarrow> expanded s ?m k ov \<noteq> []"
      using look by (fastforce simp: no_match_def)
    have "fold (rewrite_tag s ?m) visit (qTags q)
        = fmmap_keys (\<lambda>k ov. Join (expanded s ?m k ov) ''|'') (qTags q)"
      by (rule fmap_ext)
        (simp add: lookup_fold_rewrite [OF d] visits_map_of [OF assms(2)] split: option.splits)
    then have "Expand s visit q
        = Some (q\<lparr>qTags := fmmap_keys (\<lambda>k ov. Join (expanded s ?m k ov) ''|'') (qTags q)\<rparr>, None)"
      using E None by (simp add: Expand_def)
    with all show ?thesis by simp
  next
    case (Some kv)
    then have "kv \<in> set visit" and p: "no_match s ?m kv"
      by (auto simp: find_Some_iff)
    then have kv: "fmlookup (qTags q) (fst kv) = Some (snd kv)" "expanded s ?m (fst kv) (snd kv) = []"
      using look [of "fst kv" "snd kv"] by (simp_all add: no_match_def)
    have "Expand s visit q
        = Some (q\<lparr>qTags := fold (rewrite_tag s ?m) (takeWhile (\<lambda>kv. \<not> no_match s ?m kv) visit) (qTags q)\<rparr>,
                Some (NoTagsMatching (fst kv) (snd kv)))"
      using E Some by (simp add: Expand_def)
    with kv show ?thesis by auto
  qed
qed

lemma Tagv_read_publish [simp]: "Tagv (read (publish s)) = Tagv s"
  by (simp add: publish_def Copy_def)

lemma Tagv_one_point:
  "Tagv (Index [cpu_point 10 1] NewSearch) = [(''cpu'', ''host'') \<mapsto> {''web-01''}]"
  by (simp add: Index_def Tagv_index_dp tags_cpu_point add_present_def NewSearch_def)

lemma values_web_index: "TagValuesByMetricTagKey web_index ''cpu'' ''host'' = [''web-01'']"
  by (simp add: TagValuesByMetricTagKey_def tagValuesByMetricTagKey_def web_index_def
      Tagv_one_point sorted_present_def)

lemma Split_alts: "Split ''web*|db*'' (CHR ''|'') = [''web*'', ''db*'']"
  by code_simp

lemma Trim_alts: "TrimSpace ''web*'' = ''web*''" "TrimSpace ''db*'' = ''db*''"
  by code_simp+

lemma globs_alts: "glob_pattern ''web*''" "glob_pattern ''db*''"
  "glob_line ''web*'' ''web-01''" "\<not> glob_line ''db*'' ''web-01''"
  by code_simp+

lemma expanded_alts: "expanded web_index ''cpu'' ''host'' ''web*|db*'' = [''web-01'']"
  by (simp add: expanded_def Split_alts Trim_alts expansion_def wildcard_def Contains_def
      values_web_index globs_alts)

lemma tags_alts:
  "sorted_list_of_fmap (fmap_of_list [(''host'', ''web*|db*'')]) = [(''host'', ''web*|db*'')]"
  by code_simp

lemma tags_alts_upd:
  "sorted_list_of_fmap (fmupd ''host'' ''web*|db*'' fmempty) = [(''host'', ''web*|db*'')]"
  using tags_alts by simp

text \<open>
  C3 as stated fails: the alternative \<open>db*\<close> matches no tag value, and
  \<open>Expand\<close> returns the expansion of \<open>web*\<close> alone, with no error.
\<close>

theorem Expand_partial:
  "Match ''db*'' (TagValuesByMetricTagKey web_index ''cpu'' ''host'') = Some (Inr [])
   \<and> Expand web_index [(''host'', ''web*|db*'')]
        \<lparr>qMetric = ''cpu'', qTags = fmap_of_list [(''host'', ''web*|db*'')]\<rparr>
       = Some (\<lparr>qMetric = ''cpu'', qTags = fmap_of_list [(''host'', ''web-01'')]\<rparr>, None)"
proof -
  have m: "Match ''db*'' [''web-01''] = Some (Inr [])" "Match ''web*'' [''web-01''] = Some (Inr [''web-01''])"
    by (simp_all add: Match_filter globs_alts)
  show ?thesis
    by (simp add: values_web_index m Expand_def Split_alts Trim_alts Contains_def)
qed

text \<open>The query \<open>cpu{host=web*|db*}\<close> on the index that knows the host \<open>web-01\<close>.\<close>

theorem Expand_result_witness:
  "fmpred (\<lambda>k ov. expandable ov) (fmap_of_list [(''host'', ''web*|db*'')])
   \<and> visits (fmap_of_list [(''host'', ''web*|db*'')]) [(''host'', ''web*|db*'')]
   \<and> expanded web_index ''cpu'' ''host'' ''web*|db*'' = [''web-01'']
   \<and> Expand web_index [(''host'', ''web*|db*'')]
        \<lparr>qMetric = ''cpu'', qTags = fmap_of_list [(''host'', ''web*|db*'')]\<rparr>
       = Some (\<lparr>qMetric = ''cpu'', qTags = fmap_of_list [(''host'', ''web-01'')]\<rparr>, None)"
proof -
  let ?q = "\<lparr>qMetric = ''cpu'', qTags = fmap_of_list [(''host'', ''web*|db*'')]\<rparr>"
  have h: "fmpred (\<lambda>k ov. expandable ov) (qTags ?q)"
    by (auto simp: fmpred_iff expandable_def Split_alts Trim_alts globs_alts split: if_splits)
  have v: "visits (qTags ?q) [(''host'', ''web*|db*'')]"
    by (simp add: visits_def tags_alts_upd)
  have all: "\<forall>k ov. fmlookup (qTags ?q) k = Some ov \<longrightarrow> expanded web_index (qMetric ?q) k ov \<noteq> []"
    by (auto simp: expanded_alts split: if_splits)
  have f: "fmmap_keys (\<lambda>k ov. Join (expanded web_index (qMetric ?q) k ov) ''|'') (qTags ?q)
      = fmap_of_list [(''host'', ''web-01'')]"
    by (rule fmap_ext) (auto simp: expanded_alts)
  from Expand_result [OF h v, of web_index] all f
  have "Expand web_index [(''host'', ''web*|db*'')] ?q
      = Some (\<lparr>qMetric = ''cpu'', qTags = fmap_of_list [(''host'', ''web-01'')]\<rparr>, None)"
    by auto
  with h v expanded_alts show ?thesis by simp
qed

section \<open>Properties of the silence engine\<close>

text \<open>
  C1 fails on the code.  \<open>AddSilence\<close> with no alert name and the tag list
  \<open>host=web*\<close> makes the rule \<open>{host=web*}\<close>.  By the claim it matches the
  alerts with the tags \<open>host=web-01,dc=us\<close> and \<open>host=web-02\<close>; \<open>Matches\<close>
  compares the whole key of the rule with the whole key of the alert, and
  returns false for both.
\<close>

theorem Matches_whole_key:
  "ParseAlertKey ([] @ ''{'' @ ''host=web*'' @ ''}'') = Inr ''{host=web*}''
   \<and> Matches_spec \<lparr>Start = 1, End = 2, Alert = ''{host=web*}''\<rparr> ''high.cpu{host=web-01,dc=us}''
   \<and> Matches_spec \<lparr>Start = 1, End = 2, Alert = ''{host=web*}''\<rparr> ''high.cpu{host=web-02}''
   \<and> \<not> Matches \<lparr>Start = 1, End = 2, Alert = ''{host=web*}''\<rparr> ''high.cpu{host=web-01,dc=us}''
   \<and> \<not> Matches \<lparr>Start = 1, End = 2, Alert = ''{host=web*}''\<rparr> ''high.cpu{host=web-02}''"
proof -
  have "ParseAlertKey ([] @ ''{'' @ ''host=web*'' @ ''}'') = Inr ''{host=web*}''"
    by code_simp
  moreover have "Matches_spec \<lparr>Start = 1, End = 2, Alert = ''{host=web*}''\<rparr> ''high.cpu{host=web-01,dc=us}''"
    by code_simp
  moreover have "Matches_spec \<lparr>Start = 1, End = 2, Alert = ''{host=web*}''\<rparr> ''high.cpu{host=web-02}''"
    by code_simp
  ultimately show ?thesis by (simp add: Matches_def)
qed

lemma AddSilence_validated:
  "AddSilence ID now s start end' alert tagList confirm edit =
     (case validation now start end' alert tagList of
        Some e \<Rightarrow> (s, None, Some e)
      | None \<Rightarrow>
          (case ParseAlertKey (alert @ ''{'' @ tagList @ ''}'') of
             Inl e \<Rightarrow> (s, None, Some e)
           | Inr ak \<Rightarrow>
               (if confirm
                then (s\<lparr>Silence := ((Silence s)(edit := None))
                          (ID \<lparr>Start = start, End = end', Alert = ak\<rparr>
                             \<mapsto> \<lparr>Start = start, End = end', Alert = ak\<rparr>),
                        saves := saves s + 1\<rparr>, None, None)
                else (s, Some (\<lambda>a. case status s a of
                                     None \<Rightarrow> None
                                   | Some active \<Rightarrow>
                                       if Matches \<lparr>Start = start, End = end', Alert = ak\<rparr> a
                                       then Some active else None),
                      None))))"
  by (simp add: AddSilence_def validation_def IsZero_def After_def Let_def split: sum.splits)

text \<open>
  C6, as the code has it.  The error of \<open>AddSilence\<close> is that of the first
  validation that fails, in the order: start or end zero; start after end; end
  in the past; alert name and tag list both empty; and, when all pass, that of
  the parser of the alert key.  The four errors of the validations differ.
  Whenever an error is returned, the schedule is returned as it was, and there
  is no preview.
\<close>

theorem AddSilence_validation:
  assumes "AddSilence ID now s start end' alert tagList confirm edit = (s', preview, err)"
  shows "err = (case validation now start end' alert tagList of
                  Some e \<Rightarrow> Some e
                | None \<Rightarrow> (case ParseAlertKey (alert @ ''{'' @ tagList @ ''}'') of
                             Inl e \<Rightarrow> Some e | Inr ak \<Rightarrow> None))
       \<and> (err \<noteq> None \<longrightarrow> s' = s \<and> preview = None)
       \<and> distinct [StartEndRequired, StartAfterEnd, EndInPast, AlertOrTagsRequired]"
proof (cases "validation now start end' alert tagList")
  case (Some e)
  have "AddSilence ID now s start end' alert tagList confirm edit = (s, None, Some e)"
    by (simp add: AddSilence_validated Some)
  with assms have "s' = s" "preview = None" "err = Some e" by simp_all
  then show ?thesis by (simp add: Some)
next
  case None
  show ?thesis
  proof (cases "ParseAlertKey (alert @ ''{'' @ tagList @ ''}'')")
    case (Inl e)
    have "AddSilence ID now s start end' alert tagList confirm edit = (s, None, Some e)"
      using Inl by (simp add: AddSilence_validated None)
    with assms have "s' = s" "preview = None" "err = Some e" by simp_all
    then show ?thesis using Inl by (simp add: None)
  next
    case (Inr ak)
    have "snd (snd (AddSilence ID now s start end' alert tagList confirm edit)) = None"
      using Inr by (simp add: AddSilence_validated None)
    with assms have "err = None" by simp
    then show ?thesis using Inr by (simp add: None)
  qed
qed

text \<open>
  A start after the end; the alert pattern stands in for the digest that
  identifies a rule.
\<close>

theorem AddSilence_validation_witness:
  "validation 5 20 10 ''high.cpu'' [] = Some StartAfterEnd
   \<and> fst (AddSilence Alert 5 no_schedule 20 10 ''high.cpu'' [] True []) = no_schedule
   \<and> snd (AddSilence Alert 5 no_schedule 20 10 ''high.cpu'' [] True []) = (None, Some StartAfterEnd)"
proof -
  have v: "validation 5 20 10 ''high.cpu'' [] = Some StartAfterEnd"
    unfolding validation_def by simp
  obtain s' preview err where
    r: "AddSilence Alert 5 no_schedule 20 10 ''high.cpu'' [] True [] = (s', preview, err)"
    by (cases "AddSilence Alert 5 no_schedule 20 10 ''high.cpu'' [] True []") blast
  from AddSilence_validation [OF r] have "err = Some StartAfterEnd" "s' = no_schedule" "preview = None"
    unfolding v by simp_all
  with r v show ?thesis by simp
qed

text \<open>
  C6 as stated fails where start and end are the same instant: the start does
  not precede the end, and \<open>AddSilence\<close> returns the preview and no error.
\<close>

theorem AddSilence_equal_times:
  "\<not> (10::int) < 10
   \<and> AddSilence Alert 5 no_schedule 10 10 ''high.cpu'' [] False [] = (no_schedule, Some Map.empty, None)"
proof -
  have v: "validation 5 10 10 ''high.cpu'' [] = None"
    unfolding validation_def by simp
  have p: "ParseAlertKey (''high.cpu'' @ ''{'' @ [] @ ''}'') = Inr ''high.cpu{}''"
    by code_simp
  have "AddSilence Alert 5 no_schedule 10 10 ''high.cpu'' [] False [] = (no_schedule, Some Map.empty, None)"
    unfolding AddSilence_validated v p by (simp add: no_schedule_def)
  then show ?thesis by simp
qed

end
